theory Spec2Isabelle
  imports Complex_Main "HOL-Library.AList" "HOL-Library.Char_ord" "HOL-Library.List_Lexorder"
begin

section \<open>The two-tier cache of \<open>src/app/services/cache.service.ts\<close>\<close>

text \<open>
  \<open>CacheService\<close> keeps a \<open>Map\<close> from keys to entries in memory and writes every entry
  through to an IndexedDB object store. The model is sequential: one public call runs
  until its promise settles before the next one starts. \<open>Date.now()\<close> is an argument of
  every operation that reads the clock, and the outcome of every IndexedDB request (its
  \<open>onsuccess\<close> or its \<open>onerror\<close> callback) is an argument of the operation that issues
  it. A promise that resolves is \<open>Inr\<close>, a promise that rejects is \<open>Inl\<close>; the state
  reached is returned in both cases.

  The statistics are the exception to the sequence. No caller awaits \<open>updateStats\<close>: with
  the database open it reads the memory entries, issues a \<open>getAll\<close> request and returns, and
  the snapshot is published when that request completes, after the calling operation has
  resolved. Such a call is kept in \<open>pending\<close>. Requests on the object store complete in the
  order in which they were issued, so the pending statistics calls have published by the
  time a later request, one that an operation awaits, completes (\<open>await_durable\<close>); they
  also publish when the service is left idle (\<open>settle\<close>).
\<close>

subsection \<open>Data model\<close>

text \<open>
  A payload is either JavaScript's \<open>null\<close> or a serialisable value of type \<open>'a\<close>.
  \<open>get\<close> returns \<open>T | null\<close>, so the result of \<open>get\<close> has the same type.
\<close>

datatype 'a jsvalue = Null | Value 'a

record metadata =
  size_meta :: nat
  type_meta :: string
  version_meta :: string

record 'a CacheEntry =
  key :: string
  data :: "'a jsvalue"
  timestamp :: int
  expiration :: int
  accessCount :: nat
  lastAccessed :: int
  metadata :: metadata

record CacheStats =
  totalEntries :: nat
  totalSize :: nat
  hitRate :: real
  memoryUsage :: nat
  oldestEntry :: int
  newestEntry :: int

text \<open>The outcome of one IndexedDB request, and the error a rejected promise carries.\<close>

datatype idb_result = onsuccess | onerror

datatype error = DOMException

text \<open>
  \<open>memoryCache\<close> is a JavaScript \<open>Map\<close>: an association list in insertion order, where
  \<open>Map.set\<close> on a resident key replaces the value in place and on a new key appends
  (\<open>AList.update\<close>), \<open>Map.get\<close> is \<open>map_of\<close> and \<open>Map.delete\<close> is \<open>AList.delete\<close>.
  The object store has the key path \<open>key\<close>: it is the list of its records, each
  carrying its own key. \<open>db\<close> is \<open>None\<close> while the database is not open
  (\<open>IDBDatabase | null\<close>). \<open>stats\<close> is the current value of \<open>statsSubject\<close>.
  A \<open>stats_request\<close> is a call of \<open>updateStats\<close> whose \<open>getAll\<close> is in flight: the memory
  entries it read when it was called, and the records its request returns (none when the
  request fails and the error is caught).
\<close>

record 'a stats_request =
  memoryEntries :: "'a CacheEntry list"
  dbEntries :: "'a CacheEntry list"

record 'a CacheService =
  db :: "'a CacheEntry list option"
  memoryCache :: "(string \<times> 'a CacheEntry) list"
  hitCount :: nat
  missCount :: nat
  stats :: CacheStats
  pending :: "'a stats_request list"

definition MAX_MEMORY_CACHE_SIZE :: nat where
  "MAX_MEMORY_CACHE_SIZE = 50"

definition DEFAULT_TTL :: int where
  "DEFAULT_TTL = 1000 * 60 * 60 * 24"

subsection \<open>The object store\<close>

fun idb_put :: "'a CacheEntry \<Rightarrow> 'a CacheEntry list \<Rightarrow> 'a CacheEntry list" where
  "idb_put e [] = [e]"
| "idb_put e (x # xs) = (if key x = key e then e # xs else x # idb_put e xs)"

definition idb_get :: "string \<Rightarrow> 'a CacheEntry list \<Rightarrow> 'a CacheEntry option" where
  "idb_get k store = find (\<lambda>e. key e = k) store"

definition idb_delete :: "string \<Rightarrow> 'a CacheEntry list \<Rightarrow> 'a CacheEntry list" where
  "idb_delete k store = filter (\<lambda>e. key e \<noteq> k) store"

text \<open>\<open>getAll\<close> returns the records in the order of their primary keys.\<close>

definition idb_getAll :: "'a CacheEntry list \<Rightarrow> 'a CacheEntry list" where
  "idb_getAll store = sort_key key store"

subsection \<open>Private operations\<close>

definition setInIndexedDB ::
  "idb_result \<Rightarrow> 'a CacheEntry \<Rightarrow> 'a CacheService \<Rightarrow> error + 'a CacheService" where
  "setInIndexedDB r entry s =
     (case db s of
        None \<Rightarrow> Inr s
      | Some store \<Rightarrow>
          (case r of
             onerror \<Rightarrow> Inl DOMException
           | onsuccess \<Rightarrow> Inr (s\<lparr>db := Some (idb_put entry store)\<rparr>)))"

definition getFromIndexedDB ::
  "idb_result \<Rightarrow> string \<Rightarrow> 'a CacheService \<Rightarrow> error + 'a CacheEntry option" where
  "getFromIndexedDB r k s =
     (case db s of
        None \<Rightarrow> Inr None
      | Some store \<Rightarrow>
          (case r of
             onerror \<Rightarrow> Inl DOMException
           | onsuccess \<Rightarrow> Inr (idb_get k store)))"

definition deleteFromIndexedDB ::
  "idb_result \<Rightarrow> string \<Rightarrow> 'a CacheService \<Rightarrow> error + 'a CacheService" where
  "deleteFromIndexedDB r k s =
     (case db s of
        None \<Rightarrow> Inr s
      | Some store \<Rightarrow>
          (case r of
             onerror \<Rightarrow> Inl DOMException
           | onsuccess \<Rightarrow> Inr (s\<lparr>db := Some (idb_delete k store)\<rparr>)))"

definition clearIndexedDB :: "idb_result \<Rightarrow> 'a CacheService \<Rightarrow> error + 'a CacheService" where
  "clearIndexedDB r s =
     (case db s of
        None \<Rightarrow> Inr s
      | Some store \<Rightarrow>
          (case r of
             onerror \<Rightarrow> Inl DOMException
           | onsuccess \<Rightarrow> Inr (s\<lparr>db := Some []\<rparr>)))"

text \<open>
  The cursor over \<open>IDBKeyRange.upperBound(now)\<close> on the \<open>expiration\<close> index visits the
  records with \<open>expiration \<le> now\<close> and deletes each.
\<close>

definition cleanupIndexedDB ::
  "idb_result \<Rightarrow> int \<Rightarrow> 'a CacheService \<Rightarrow> error + 'a CacheService" where
  "cleanupIndexedDB r now s =
     (case db s of
        None \<Rightarrow> Inr s
      | Some store \<Rightarrow>
          (case r of
             onerror \<Rightarrow> Inl DOMException
           | onsuccess \<Rightarrow> Inr (s\<lparr>db := Some (filter (\<lambda>e. \<not> expiration e \<le> now) store)\<rparr>)))"

definition calculateMemoryUsage :: "(string \<times> 'a CacheEntry) list \<Rightarrow> nat" where
  "calculateMemoryUsage mem = foldl (\<lambda>total entry. total + size_meta (metadata entry)) 0 (map snd mem)"

text \<open>
  The loop of \<open>enforceMemoryLimit\<close>: \<open>entries\<close> is the sorted snapshot, \<open>mem\<close> the live
  map, whose usage is recomputed before every removal.
\<close>

fun enforceMemoryLimit_loop ::
  "nat \<Rightarrow> (string \<times> 'a CacheEntry) list \<Rightarrow> (string \<times> 'a CacheEntry) list
     \<Rightarrow> (string \<times> 'a CacheEntry) list" where
  "enforceMemoryLimit_loop maxSize [] mem = mem"
| "enforceMemoryLimit_loop maxSize (e # entries) mem =
     (if calculateMemoryUsage mem > maxSize
      then enforceMemoryLimit_loop maxSize entries (AList.delete (fst e) mem)
      else mem)"

text \<open>
  \<open>Array.prototype.sort\<close> is stable; with the comparator \<open>a.lastAccessed - b.lastAccessed\<close>
  it is the stable ascending sort by \<open>lastAccessed\<close>.
\<close>

definition enforceMemoryLimit :: "'a CacheService \<Rightarrow> 'a CacheService" where
  "enforceMemoryLimit s =
     (let currentSize = calculateMemoryUsage (memoryCache s);
          maxSize = MAX_MEMORY_CACHE_SIZE * 1024 * 1024
      in if currentSize > maxSize
         then s\<lparr>memoryCache :=
                  enforceMemoryLimit_loop maxSize
                    (sort_key (\<lambda>p. lastAccessed (snd p)) (memoryCache s)) (memoryCache s)\<rparr>
         else s)"

text \<open>
  \<open>JSON.stringify\<close> followed by \<open>TextEncoder.encode\<close>: \<open>null\<close> is the four bytes
  \<open>null\<close>; for the other payloads the platform's serialisation \<open>ser\<close> (the UTF-8 bytes of
  the JSON text) is a parameter. Payloads are serialisable, so the \<open>catch\<close> branch of
  \<open>calculateSize\<close> is not taken.
\<close>

fun JSON_stringify :: "('a \<Rightarrow> string) \<Rightarrow> 'a jsvalue \<Rightarrow> string" where
  "JSON_stringify ser Null = ''null''"
| "JSON_stringify ser (Value v) = ser v"

definition calculateSize :: "('a \<Rightarrow> string) \<Rightarrow> 'a jsvalue \<Rightarrow> nat" where
  "calculateSize ser d = length (JSON_stringify ser d)"

subsection \<open>Statistics\<close>

text \<open>
  \<open>publishStats\<close> is the part of \<open>updateStats\<close> after its \<open>await\<close>: it reads the counters
  and the memory usage of the moment and publishes the snapshot.
  \<open>Math.min\<close> and \<open>Math.max\<close> are applied to non-empty lists only.
\<close>

definition publishStats :: "'a stats_request \<Rightarrow> 'a CacheService \<Rightarrow> 'a CacheService" where
  "publishStats p s =
     (let allEntries = memoryEntries p @
            filter (\<lambda>d. find (\<lambda>m. key m = key d) (memoryEntries p) = None) (dbEntries p);
          totalRequests = hitCount s + missCount s
      in s\<lparr>stats :=
           \<lparr>totalEntries = length allEntries,
            totalSize = foldl (\<lambda>total entry. total + size_meta (metadata entry)) 0 allEntries,
            hitRate = (if totalRequests > 0
                       then (real (hitCount s) / real totalRequests) * 100 else 0),
            memoryUsage = calculateMemoryUsage (memoryCache s),
            oldestEntry = (case map timestamp allEntries of [] \<Rightarrow> 0 | t # ts \<Rightarrow> fold min ts t),
            newestEntry = (case map timestamp allEntries of [] \<Rightarrow> 0 | t # ts \<Rightarrow> fold max ts t)\<rparr>\<rparr>)"

text \<open>
  \<open>updateStats\<close> without a database meets no \<open>await\<close> and publishes at once. With the
  database open it issues \<open>getAll\<close> and returns; a failed \<open>getAll\<close> is caught and counts as
  no durable entries.
\<close>

definition updateStats :: "idb_result \<Rightarrow> 'a CacheService \<Rightarrow> 'a CacheService" where
  "updateStats r s =
     (case db s of
        None \<Rightarrow> publishStats \<lparr>memoryEntries = map snd (memoryCache s), dbEntries = []\<rparr> s
      | Some store \<Rightarrow>
          s\<lparr>pending := pending s @
               [\<lparr>memoryEntries = map snd (memoryCache s),
                 dbEntries = (case r of onerror \<Rightarrow> [] | onsuccess \<Rightarrow> idb_getAll store)\<rparr>]\<rparr>)"

text \<open>The pending statistics calls publish, the oldest first.\<close>

definition settle :: "'a CacheService \<Rightarrow> 'a CacheService" where
  "settle s = fold publishStats (pending s) (s\<lparr>pending := []\<rparr>)"

text \<open>
  What has happened by the time a request that an operation awaits completes. Without a
  database the helpers return before issuing a request, and nothing is pending.
\<close>

definition await_durable :: "'a CacheService \<Rightarrow> 'a CacheService" where
  "await_durable s = (case db s of None \<Rightarrow> s | Some store \<Rightarrow> settle s)"

subsection \<open>Start-up\<close>

text \<open>
  \<open>loadMemoryCache\<close> seeds the memory tier with the twenty unexpired records of the
  highest \<open>accessCount * lastAccessed\<close>; the comparator \<open>b - a\<close> sorts descending, stably.
  Its \<open>getAll\<close> request has a success handler only: when the request fails nothing is
  loaded and \<open>updateStats\<close> is not called.
\<close>

definition loadMemoryCache ::
  "idb_result \<Rightarrow> idb_result \<Rightarrow> int \<Rightarrow> 'a CacheService \<Rightarrow> 'a CacheService" where
  "loadMemoryCache r rs now s =
     (case db s of
        None \<Rightarrow> s
      | Some store \<Rightarrow>
          (case r of
             onerror \<Rightarrow> s
           | onsuccess \<Rightarrow>
               (let entries = idb_getAll store;
                    top = take 20
                      (sort_key (\<lambda>e. - (int (accessCount e) * lastAccessed e))
                         (filter (\<lambda>entry. expiration entry > now) entries))
                in updateStats rs
                     (s\<lparr>memoryCache :=
                          fold (\<lambda>entry m. AList.update (key entry) entry m) top
                            (memoryCache s)\<rparr>))))"

text \<open>
  The constructor's state, and \<open>initializeIndexedDB\<close> on a database whose object store
  holds \<open>store\<close>: when the open request fails the service stays without a database.
\<close>

definition constructor :: "'a CacheService" where
  "constructor =
     \<lparr>db = None, memoryCache = [], hitCount = 0, missCount = 0,
      stats = \<lparr>totalEntries = 0, totalSize = 0, hitRate = 0, memoryUsage = 0,
               oldestEntry = 0, newestEntry = 0\<rparr>,
      pending = []\<rparr>"

definition initializeIndexedDB ::
  "idb_result \<Rightarrow> idb_result \<Rightarrow> idb_result \<Rightarrow> 'a CacheEntry list \<Rightarrow> int \<Rightarrow> 'a CacheService
     \<Rightarrow> 'a CacheService" where
  "initializeIndexedDB r rl rs store now s =
     (case r of
        onerror \<Rightarrow> s
      | onsuccess \<Rightarrow> loadMemoryCache rl rs now (s\<lparr>db := Some store\<rparr>))"

subsection \<open>Public operations\<close>

definition set_entry ::
  "('a \<Rightarrow> string) \<Rightarrow> idb_result \<Rightarrow> idb_result \<Rightarrow> int \<Rightarrow> string \<Rightarrow> 'a jsvalue \<Rightarrow> int \<Rightarrow> string
     \<Rightarrow> 'a CacheService \<Rightarrow> (error + unit) \<times> 'a CacheService" where
  "set_entry ser w rs now k d ttl ty s =
     (let entry = \<lparr>key = k, data = d, timestamp = now, expiration = now + ttl,
                   accessCount = 0, lastAccessed = now,
                   metadata = \<lparr>size_meta = calculateSize ser d, type_meta = ty,
                               version_meta = ''1.0''\<rparr>\<rparr>;
          s0 = (if size_meta (metadata entry) < 1024 * 1024
                then enforceMemoryLimit (s\<lparr>memoryCache := AList.update k entry (memoryCache s)\<rparr>)
                else s);
          s1 = await_durable s0
      in case setInIndexedDB w entry s1 of
           Inl err \<Rightarrow> (Inl err, s1)
         | Inr s2 \<Rightarrow> (Inr (), updateStats rs s2))"

definition get_entry ::
  "idb_result \<Rightarrow> idb_result \<Rightarrow> int \<Rightarrow> string \<Rightarrow> 'a CacheService
     \<Rightarrow> (error + 'a jsvalue) \<times> 'a CacheService" where
  "get_entry rd w now k s =
     (case (case map_of (memoryCache s) k of
              None \<Rightarrow> None
            | Some entry \<Rightarrow> if expiration entry > now then Some entry else None) of
        Some entry \<Rightarrow>
          (Inr (data entry),
           s\<lparr>memoryCache :=
               AList.update k (entry\<lparr>accessCount := accessCount entry + 1, lastAccessed := now\<rparr>)
                 (memoryCache s),
             hitCount := hitCount s + 1\<rparr>)
      | None \<Rightarrow>
          (let sa = await_durable s
           in case getFromIndexedDB rd k sa of
                Inl err \<Rightarrow> (Inl err, sa)
              | Inr dbEntry \<Rightarrow>
                  (case (case dbEntry of
                           None \<Rightarrow> None
                         | Some entry \<Rightarrow> if expiration entry > now then Some entry else None) of
                     Some entry0 \<Rightarrow>
                       (let entry = entry0\<lparr>accessCount := accessCount entry0 + 1,
                                           lastAccessed := now\<rparr>;
                            s0 = (if accessCount entry > 2 \<and>
                                     size_meta (metadata entry) < 1024 * 1024
                                  then enforceMemoryLimit
                                         (sa\<lparr>memoryCache :=
                                              AList.update k entry (memoryCache sa)\<rparr>)
                                  else sa);
                            s1 = await_durable s0
                        in case setInIndexedDB w entry s1 of
                             Inl err \<Rightarrow> (Inl err, s1)
                           | Inr s2 \<Rightarrow> (Inr (data entry), s2\<lparr>hitCount := hitCount s2 + 1\<rparr>))
                   | None \<Rightarrow> (Inr Null, sa\<lparr>missCount := missCount sa + 1\<rparr>))))"

definition has ::
  "idb_result \<Rightarrow> idb_result \<Rightarrow> int \<Rightarrow> string \<Rightarrow> 'a CacheService
     \<Rightarrow> (error + bool) \<times> 'a CacheService" where
  "has rd w now k s =
     (case get_entry rd w now k s of
        (Inl err, s') \<Rightarrow> (Inl err, s')
      | (Inr d, s') \<Rightarrow> (Inr (d \<noteq> Null), s'))"

definition delete_entry ::
  "idb_result \<Rightarrow> idb_result \<Rightarrow> string \<Rightarrow> 'a CacheService \<Rightarrow> (error + unit) \<times> 'a CacheService" where
  "delete_entry r rs k s =
     (let s1 = await_durable (s\<lparr>memoryCache := AList.delete k (memoryCache s)\<rparr>)
      in case deleteFromIndexedDB r k s1 of
           Inl err \<Rightarrow> (Inl err, s1)
         | Inr s2 \<Rightarrow> (Inr (), updateStats rs s2))"

definition clear ::
  "idb_result \<Rightarrow> idb_result \<Rightarrow> 'a CacheService \<Rightarrow> (error + unit) \<times> 'a CacheService" where
  "clear r rs s =
     (let s1 = await_durable (s\<lparr>memoryCache := []\<rparr>)
      in case clearIndexedDB r s1 of
           Inl err \<Rightarrow> (Inl err, s1)
         | Inr s2 \<Rightarrow> (Inr (), updateStats rs (s2\<lparr>hitCount := 0, missCount := 0\<rparr>)))"

definition cleanup ::
  "idb_result \<Rightarrow> idb_result \<Rightarrow> int \<Rightarrow> 'a CacheService \<Rightarrow> (error + unit) \<times> 'a CacheService" where
  "cleanup r rs now s =
     (let keysToDelete = map fst (filter (\<lambda>(k, entry). expiration entry \<le> now) (memoryCache s));
          s1 = await_durable
                 (s\<lparr>memoryCache := fold AList.delete keysToDelete (memoryCache s)\<rparr>)
      in case cleanupIndexedDB r now s1 of
           Inl err \<Rightarrow> (Inl err, s1)
         | Inr s2 \<Rightarrow> (Inr (), updateStats rs s2))"

subsection \<open>Sequences of calls\<close>

text \<open>
  The public operations as data, for statements about what the service does between two
  calls. A call carries the clock reading and the outcomes of the durable requests it
  issues (the second outcome is that of the statistics read, or of the write-back of
  \<open>get\<close>).
\<close>

datatype 'a operation =
    Set string "'a jsvalue" int string
  | Get string
  | Has string
  | Delete string
  | Clear
  | Cleanup

datatype 'a call = Call int idb_result idb_result "'a operation"

fun time_of :: "'a call \<Rightarrow> int" where
  "time_of (Call now r1 r2 opn) = now"

fun operation_of :: "'a call \<Rightarrow> 'a operation" where
  "operation_of (Call now r1 r2 opn) = opn"

fun perform :: "('a \<Rightarrow> string) \<Rightarrow> 'a call \<Rightarrow> 'a CacheService \<Rightarrow> 'a CacheService" where
  "perform ser (Call now r1 r2 (Set k d ttl ty)) s = snd (set_entry ser r1 r2 now k d ttl ty s)"
| "perform ser (Call now r1 r2 (Get k)) s = snd (get_entry r1 r2 now k s)"
| "perform ser (Call now r1 r2 (Has k)) s = snd (has r1 r2 now k s)"
| "perform ser (Call now r1 r2 (Delete k)) s = snd (delete_entry r1 r2 k s)"
| "perform ser (Call now r1 r2 Clear) s = snd (clear r1 r2 s)"
| "perform ser (Call now r1 r2 Cleanup) s = snd (cleanup r1 r2 now s)"

fun affects :: "string \<Rightarrow> 'a operation \<Rightarrow> bool" where
  "affects k (Set k' d ttl ty) = (k' = k)"
| "affects k (Delete k') = (k' = k)"
| "affects k Clear = True"
| "affects k (Get k') = False"
| "affects k (Has k') = False"
| "affects k Cleanup = False"

subsection \<open>Auxiliary notions\<close>

text \<open>The entry that \<open>set(k, d, ttl, ty)\<close> constructs at time \<open>now\<close>.\<close>

definition new_entry ::
  "('a \<Rightarrow> string) \<Rightarrow> int \<Rightarrow> string \<Rightarrow> 'a jsvalue \<Rightarrow> int \<Rightarrow> string \<Rightarrow> 'a CacheEntry" where
  "new_entry ser now k d ttl ty =
     \<lparr>key = k, data = d, timestamp = now, expiration = now + ttl,
      accessCount = 0, lastAccessed = now,
      metadata = \<lparr>size_meta = calculateSize ser d, type_meta = ty, version_meta = ''1.0''\<rparr>\<rparr>"

text \<open>
  The durable tier holds an entry for \<open>k\<close> with payload \<open>v\<close> expiring at \<open>ex\<close>, and the
  memory tier holds no other entry for \<open>k\<close>.
\<close>

definition retains :: "string \<Rightarrow> 'a jsvalue \<Rightarrow> int \<Rightarrow> 'a CacheService \<Rightarrow> bool" where
  "retains k v ex s =
     ((case db s of
         None \<Rightarrow> False
       | Some store \<Rightarrow>
           (case idb_get k store of None \<Rightarrow> False | Some e \<Rightarrow> data e = v \<and> expiration e = ex)) \<and>
      (case map_of (memoryCache s) k of None \<Rightarrow> True | Some e \<Rightarrow> data e = v \<and> expiration e = ex))"

text \<open>
  A live entry for \<open>k\<close> is stored in one of the tiers: what makes a \<open>get(k)\<close> a hit.
  \<open>gets\<close> is a sequence of \<open>get\<close> calls whose durable requests succeed, each given by its
  clock reading and its key; \<open>hits\<close> and \<open>misses\<close> count the calls of the sequence that
  find, and that do not find, a live entry.
\<close>

definition served :: "int \<Rightarrow> string \<Rightarrow> 'a CacheService \<Rightarrow> bool" where
  "served now k s =
     ((case map_of (memoryCache s) k of None \<Rightarrow> False | Some e \<Rightarrow> now < expiration e) \<or>
      (case db s of
         None \<Rightarrow> False
       | Some store \<Rightarrow> (case idb_get k store of None \<Rightarrow> False | Some e \<Rightarrow> now < expiration e)))"

fun gets :: "(int \<times> string) list \<Rightarrow> 'a CacheService \<Rightarrow> 'a CacheService" where
  "gets [] s = s"
| "gets ((now, k) # gs) s = gets gs (snd (get_entry onsuccess onsuccess now k s))"

fun hits :: "(int \<times> string) list \<Rightarrow> 'a CacheService \<Rightarrow> nat" where
  "hits [] s = 0"
| "hits ((now, k) # gs) s =
     (if served now k s then 1 else 0) + hits gs (snd (get_entry onsuccess onsuccess now k s))"

fun misses :: "(int \<times> string) list \<Rightarrow> 'a CacheService \<Rightarrow> nat" where
  "misses [] s = 0"
| "misses ((now, k) # gs) s =
     (if served now k s then 0 else 1) + misses gs (snd (get_entry onsuccess onsuccess now k s))"

text \<open>The memory tier is within its ceiling of 50 MiB.\<close>

definition within_limit :: "'a CacheService \<Rightarrow> bool" where
  "within_limit s = (calculateMemoryUsage (memoryCache s) \<le> MAX_MEMORY_CACHE_SIZE * 1024 * 1024)"

subsection \<open>Example inputs\<close>

text \<open>
  A payload type for the examples: the natural number \<open>n\<close> stands for a value whose JSON
  text is \<open>n\<close> bytes long.
\<close>

definition ser_len :: "nat \<Rightarrow> string" where
  "ser_len n = replicate n CHR ''x''"

text \<open>A service whose database is open and empty, and the same after \<open>set('a', _, 1000)\<close>
  at time 100.\<close>

definition example_open :: "nat CacheService" where
  "example_open = initializeIndexedDB onsuccess onsuccess onsuccess [] 0 constructor"

definition example_cached :: "nat CacheService" where
  "example_cached =
     snd (set_entry ser_len onsuccess onsuccess 100 ''a'' (Value 3) 1000 ''analysis'' example_open)"

definition example_entry :: "nat CacheEntry" where
  "example_entry = \<lparr>key = ''a'', data = Value 3, timestamp = 100, expiration = 1100,
     accessCount = 0, lastAccessed = 100,
     metadata = \<lparr>size_meta = 3, type_meta = ''analysis'', version_meta = ''1.0''\<rparr>\<rparr>"

text \<open>The same after a \<open>get('a')\<close> at time 200, served by the memory tier.\<close>

definition example_hit :: "nat CacheService" where
  "example_hit = snd (get_entry onsuccess onsuccess 200 ''a'' example_cached)"

text \<open>
  The same database opened by a later session whose start-up read fails: \<open>'a'\<close> is
  in the durable tier only. And a service that has stored a payload of 2 MiB.
\<close>

definition example_durable_only :: "nat CacheService" where
  "example_durable_only =
     initializeIndexedDB onsuccess onerror onsuccess [example_entry] 50 constructor"

definition example_large :: "nat CacheService" where
  "example_large =
     snd (set_entry ser_len onsuccess onsuccess 100 ''big'' (Value 2097152) 1000 ''analysis''
            example_open)"

text \<open>
  Two payloads of 30 MiB, stored by one session (each \<open>set\<close> writes them to the durable
  tier only; \<open>'a'\<close> is read once), and the service of the next session, whose start-up
  seeds the memory tier from that store; then \<open>set('c', _)\<close> at time 200.
\<close>

definition example_a :: "nat CacheEntry" where
  "example_a = \<lparr>key = ''a'', data = Value 31457280, timestamp = 100, expiration = 1100,
       accessCount = 1, lastAccessed = 100,
       metadata = \<lparr>size_meta = 31457280, type_meta = ''analysis'', version_meta = ''1.0''\<rparr>\<rparr>"

definition example_b :: "nat CacheEntry" where
  "example_b = \<lparr>key = ''b'', data = Value 31457280, timestamp = 100, expiration = 1100,
       accessCount = 0, lastAccessed = 100,
       metadata = \<lparr>size_meta = 31457280, type_meta = ''analysis'', version_meta = ''1.0''\<rparr>\<rparr>"

definition example_session :: "nat CacheService" where
  "example_session =
     snd (set_entry ser_len onsuccess onsuccess 100 ''b'' (Value 31457280) 1000 ''analysis''
       (snd (get_entry onsuccess onsuccess 100 ''a''
         (snd (set_entry ser_len onsuccess onsuccess 100 ''a'' (Value 31457280) 1000 ''analysis''
            example_open)))))"

definition example_restart :: "nat CacheService" where
  "example_restart =
     initializeIndexedDB onsuccess onsuccess onsuccess [example_a, example_b] 150 constructor"

definition example_pressure :: "nat CacheService" where
  "example_pressure =
     snd (set_entry ser_len onsuccess onsuccess 200 ''c'' (Value 3) 1000 ''analysis'' example_restart)"

section \<open>Properties\<close>

subsection \<open>The object store and the memory map\<close>

lemma idb_get_put: "idb_get k (idb_put e store) = (if key e = k then Some e else idb_get k store)"
  by (induction store) (auto simp: idb_get_def)

lemma idb_get_delete: "idb_get k (idb_delete k' store) = (if k = k' then None else idb_get k store)"
  by (induction store) (auto simp: idb_get_def idb_delete_def)

lemma idb_get_key: "idb_get k store = Some e \<Longrightarrow> key e = k"
  by (induction store) (auto simp: idb_get_def split: if_splits)

lemma idb_get_sweep:
  "idb_get k store = Some e \<Longrightarrow> \<not> expiration e \<le> now \<Longrightarrow>
   idb_get k (filter (\<lambda>e. \<not> expiration e \<le> now) store) = Some e"
  by (induction store) (auto simp: idb_get_def split: if_splits)

lemma idb_delete_idem: "idb_delete k (idb_delete k store) = idb_delete k store"
  by (simp add: idb_delete_def)

lemma calculateSize_ser_len [simp]: "calculateSize ser_len (Value n) = n"
  by (simp add: calculateSize_def ser_len_def)

lemma calculateSize_Null [simp]: "calculateSize ser Null = 4"
  by (simp add: calculateSize_def)

lemma enforceMemoryLimit_fields [simp]:
  "db (enforceMemoryLimit s) = db s"
  "hitCount (enforceMemoryLimit s) = hitCount s"
  "missCount (enforceMemoryLimit s) = missCount s"
  "stats (enforceMemoryLimit s) = stats s"
  "pending (enforceMemoryLimit s) = pending s"
  by (simp_all add: enforceMemoryLimit_def Let_def)

lemma publishStats_fields [simp]:
  "db (publishStats p s) = db s"
  "memoryCache (publishStats p s) = memoryCache s"
  "hitCount (publishStats p s) = hitCount s"
  "missCount (publishStats p s) = missCount s"
  "pending (publishStats p s) = pending s"
  by (simp_all add: publishStats_def Let_def)

lemma fold_publishStats_fields [simp]:
  "db (fold publishStats ps s) = db s"
  "memoryCache (fold publishStats ps s) = memoryCache s"
  "hitCount (fold publishStats ps s) = hitCount s"
  "missCount (fold publishStats ps s) = missCount s"
  "pending (fold publishStats ps s) = pending s"
  by (induction ps arbitrary: s) simp_all

lemma settle_fields [simp]:
  "db (settle s) = db s"
  "memoryCache (settle s) = memoryCache s"
  "hitCount (settle s) = hitCount s"
  "missCount (settle s) = missCount s"
  "pending (settle s) = []"
  by (simp_all add: settle_def)

lemma await_durable_fields [simp]:
  "db (await_durable s) = db s"
  "memoryCache (await_durable s) = memoryCache s"
  "hitCount (await_durable s) = hitCount s"
  "missCount (await_durable s) = missCount s"
  by (simp_all add: await_durable_def split: option.splits)

lemma settle_idle: "pending s = [] \<Longrightarrow> settle s = s"
  by (simp add: settle_def)

lemma await_durable_idle: "pending s = [] \<Longrightarrow> await_durable s = s"
  by (simp add: await_durable_def settle_idle split: option.splits)

lemma await_durable_closed: "db s = None \<Longrightarrow> await_durable s = s"
  by (simp add: await_durable_def)

lemma await_durable_open: "db s = Some store \<Longrightarrow> await_durable s = settle s"
  by (simp add: await_durable_def)

lemma enforceMemoryLimit_loop_lookup:
  "map_of (enforceMemoryLimit_loop m es mem) k = None \<or>
   map_of (enforceMemoryLimit_loop m es mem) k = map_of mem k"
proof (induction es arbitrary: mem)
  case Nil
  then show ?case by simp
next
  case (Cons e es)
  show ?case
  proof (cases "calculateMemoryUsage mem > m")
    case True
    with Cons.IH [of "AList.delete (fst e) mem"] show ?thesis
      by (auto simp: delete_conv')
  next
    case False
    then show ?thesis by simp
  qed
qed

lemma enforceMemoryLimit_lookup:
  "map_of (memoryCache (enforceMemoryLimit s)) k = None \<or>
   map_of (memoryCache (enforceMemoryLimit s)) k = map_of (memoryCache s) k"
  using enforceMemoryLimit_loop_lookup [of "MAX_MEMORY_CACHE_SIZE * 1024 * 1024" _ "memoryCache s" k]
  by (simp add: enforceMemoryLimit_def Let_def)

lemma updateStats_fields [simp]:
  "db (updateStats r s) = db s"
  "memoryCache (updateStats r s) = memoryCache s"
  "hitCount (updateStats r s) = hitCount s"
  "missCount (updateStats r s) = missCount s"
  by (simp_all add: updateStats_def split: option.splits)

subsection \<open>The three outcomes of \<open>get\<close>\<close>

lemma get_entry_miss:
  assumes "case map_of (memoryCache s) k of None \<Rightarrow> True | Some e \<Rightarrow> expiration e \<le> now"
    and "case db s of None \<Rightarrow> True
         | Some store \<Rightarrow> rd = onsuccess \<and>
             (case idb_get k store of None \<Rightarrow> True | Some e \<Rightarrow> expiration e \<le> now)"
  shows "get_entry rd w now k s =
           (Inr Null, (await_durable s)\<lparr>missCount := missCount s + 1\<rparr>)"
  using assms
  by (auto simp: get_entry_def getFromIndexedDB_def Let_def split: option.splits)

lemma get_entry_memory_hit:
  assumes "map_of (memoryCache s) k = Some e" "expiration e > now"
  shows "get_entry rd w now k s =
    (Inr (data e),
     s\<lparr>memoryCache :=
         AList.update k (e\<lparr>accessCount := accessCount e + 1, lastAccessed := now\<rparr>) (memoryCache s),
       hitCount := hitCount s + 1\<rparr>)"
  using assms by (simp add: get_entry_def)


subsection \<open>The example states, computed\<close>

lemma example_open_eq:
  "example_open = \<lparr>db = Some [], memoryCache = [], hitCount = 0, missCount = 0,
      stats = \<lparr>totalEntries = 0, totalSize = 0, hitRate = 0, memoryUsage = 0,
               oldestEntry = 0, newestEntry = 0\<rparr>,
      pending = [\<lparr>memoryEntries = [], dbEntries = []\<rparr>]\<rparr>"
  by (simp add: example_open_def initializeIndexedDB_def loadMemoryCache_def constructor_def
      idb_getAll_def updateStats_def)

lemma example_cached_eq:
  "example_cached = \<lparr>db = Some [example_entry], memoryCache = [(''a'', example_entry)],
      hitCount = 0, missCount = 0,
      stats = \<lparr>totalEntries = 0, totalSize = 0, hitRate = 0, memoryUsage = 3,
               oldestEntry = 0, newestEntry = 0\<rparr>,
      pending = [\<lparr>memoryEntries = [example_entry], dbEntries = [example_entry]\<rparr>]\<rparr>"
  by (simp add: example_cached_def example_open_eq set_entry_def enforceMemoryLimit_def
      calculateMemoryUsage_def MAX_MEMORY_CACHE_SIZE_def setInIndexedDB_def updateStats_def
      await_durable_def settle_def publishStats_def idb_getAll_def example_entry_def Let_def)

lemma example_hit_eq:
  "example_hit = \<lparr>db = Some [example_entry],
      memoryCache = [(''a'', example_entry\<lparr>accessCount := 1, lastAccessed := 200\<rparr>)],
      hitCount = 1, missCount = 0,
      stats = \<lparr>totalEntries = 0, totalSize = 0, hitRate = 0, memoryUsage = 3,
               oldestEntry = 0, newestEntry = 0\<rparr>,
      pending = [\<lparr>memoryEntries = [example_entry], dbEntries = [example_entry]\<rparr>]\<rparr>"
  by (simp add: example_hit_def example_cached_eq get_entry_def)
     (simp add: example_entry_def)

lemma example_durable_only_eq:
  "example_durable_only = \<lparr>db = Some [example_entry], memoryCache = [], hitCount = 0,
      missCount = 0,
      stats = \<lparr>totalEntries = 0, totalSize = 0, hitRate = 0, memoryUsage = 0,
               oldestEntry = 0, newestEntry = 0\<rparr>,
      pending = []\<rparr>"
  by (simp add: example_durable_only_def initializeIndexedDB_def loadMemoryCache_def
      constructor_def)

lemma example_large_eq:
  "db example_large = Some [new_entry ser_len 100 ''big'' (Value 2097152) 1000 ''analysis''] \<and>
   memoryCache example_large = []"
  by (simp add: example_large_def example_open_eq set_entry_def setInIndexedDB_def Let_def
      new_entry_def)

lemma example_session_store:
  "db example_session = Some [example_a, example_b] \<and> memoryCache example_session = []"
  by (simp add: example_session_def example_open_eq set_entry_def get_entry_def
      setInIndexedDB_def getFromIndexedDB_def idb_get_def Let_def example_a_def example_b_def)

lemma example_restart_tiers:
  "memoryCache example_restart = [(''a'', example_a), (''b'', example_b)] \<and>
   db example_restart = Some [example_a, example_b]"
proof -
  have "sort_key key [example_a, example_b] = [example_a, example_b]"
    by (simp add: example_a_def example_b_def)
  then show ?thesis
    by (simp add: example_restart_def initializeIndexedDB_def loadMemoryCache_def constructor_def
      idb_getAll_def Let_def)
       (simp add: example_a_def example_b_def)
qed

lemma example_pressure_memory:
  "memoryCache example_pressure =
     [(''b'', example_b), (''c'', new_entry ser_len 200 ''c'' (Value 3) 1000 ''analysis'')] \<and>
   db example_pressure =
     Some [example_a, example_b, new_entry ser_len 200 ''c'' (Value 3) 1000 ''analysis'']"
  by (simp add: example_pressure_def example_restart_tiers set_entry_def enforceMemoryLimit_def
      setInIndexedDB_def calculateMemoryUsage_def MAX_MEMORY_CACHE_SIZE_def Let_def new_entry_def
      AList.delete_eq)
     (simp add: example_a_def example_b_def)


subsection \<open>Expiration\<close>

text \<open>
  C2. When every copy of the entry stored for \<open>k\<close> (in the memory tier, in the durable
  tier, or in both) has \<open>expiration \<le> now\<close>, \<open>get(k)\<close> returns \<open>null\<close> and counts one miss
  and no hit, although the copies are still stored. The durable read is one that
  completes (or the database is not open, and no read is issued).
\<close>

theorem get_expired_is_miss:
  assumes "\<forall>e. map_of (memoryCache s) k = Some e \<longrightarrow> expiration e \<le> now"
    and "\<forall>store e. db s = Some store \<longrightarrow> idb_get k store = Some e \<longrightarrow> expiration e \<le> now"
    and "db s = None \<or> rd = onsuccess"
  shows "fst (get_entry rd w now k s) = Inr Null \<and>
         missCount (snd (get_entry rd w now k s)) = missCount s + 1 \<and>
         hitCount (snd (get_entry rd w now k s)) = hitCount s"
proof -
  have "get_entry rd w now k s = (Inr Null, (await_durable s)\<lparr>missCount := missCount s + 1\<rparr>)"
    using assms by (intro get_entry_miss) (auto split: option.splits)
  then show ?thesis by simp
qed

theorem get_expired_is_miss_witness:
  "map_of (memoryCache example_cached) ''a'' = Some example_entry \<and>
   db example_cached = Some [example_entry] \<and>
   expiration example_entry \<le> 1100 \<and>
   fst (get_entry onsuccess onsuccess 1100 ''a'' example_cached) = Inr Null \<and>
   missCount (snd (get_entry onsuccess onsuccess 1100 ''a'' example_cached)) = 1 \<and>
   hitCount (snd (get_entry onsuccess onsuccess 1100 ''a'' example_cached)) = 0"
proof -
  have m: "\<forall>e. map_of (memoryCache example_cached) ''a'' = Some e \<longrightarrow> expiration e \<le> 1100"
    by (simp add: example_cached_eq example_entry_def)
  have d: "\<forall>store e. db example_cached = Some store \<longrightarrow> idb_get ''a'' store = Some e
             \<longrightarrow> expiration e \<le> 1100"
    by (simp add: example_cached_eq example_entry_def idb_get_def)
  have r: "db example_cached = None \<or> onsuccess = onsuccess" by simp
  from get_expired_is_miss [OF m d r, of onsuccess] show ?thesis
    by (simp add: example_cached_eq) (simp add: example_entry_def)
qed

text \<open>
  C8 as stated fails: a \<open>get\<close> that finds only an expired entry returns \<open>null\<close> but
  deletes nothing. Here the entry of \<open>'a'\<close> expires at 1100, and after \<open>get('a')\<close> at 1100
  it is still in the memory map and in the object store.
\<close>

theorem get_expired_keeps_entry_counterexample:
  "map_of (memoryCache example_cached) ''a'' = Some example_entry \<and>
   db example_cached = Some [example_entry] \<and>
   expiration example_entry \<le> 1100 \<and>
   fst (get_entry onsuccess onsuccess 1100 ''a'' example_cached) = Inr Null \<and>
   map_of (memoryCache (snd (get_entry onsuccess onsuccess 1100 ''a'' example_cached))) ''a''
     = Some example_entry \<and>
   db (snd (get_entry onsuccess onsuccess 1100 ''a'' example_cached)) = Some [example_entry]"
  by (simp add: example_cached_eq get_entry_def getFromIndexedDB_def idb_get_def Let_def)
     (simp add: example_entry_def)

lemma map_of_fold_delete:
  "map_of (fold AList.delete ks m) k = (if k \<in> set ks then None else map_of m k)"
  by (induction ks arbitrary: m) (auto simp: delete_conv')

lemma cleanup_memoryCache:
  "memoryCache (snd (cleanup r rs now s)) =
     fold AList.delete
       (map fst (filter (\<lambda>(k, entry). expiration entry \<le> now) (memoryCache s))) (memoryCache s)"
  by (auto simp: cleanup_def cleanupIndexedDB_def Let_def split: option.splits idb_result.splits)

lemma cleanup_memory_expired:
  assumes "\<forall>e. map_of (memoryCache s) k = Some e \<longrightarrow> expiration e \<le> now"
  shows "map_of (memoryCache (snd (cleanup r rs now s))) k = None"
proof (cases "map_of (memoryCache s) k")
  case None
  then show ?thesis by (simp add: cleanup_memoryCache map_of_fold_delete)
next
  case (Some e)
  with assms have "expiration e \<le> now" by simp
  moreover from Some have "(k, e) \<in> set (memoryCache s)" by (rule map_of_SomeD)
  ultimately have "k \<in> set (map fst (filter (\<lambda>(k, entry). expiration entry \<le> now) (memoryCache s)))"
    by force
  then show ?thesis by (simp add: cleanup_memoryCache map_of_fold_delete)
qed

lemma cleanup_durable:
  "db s = Some store \<Longrightarrow>
   fst (cleanup onsuccess rs now s) = Inr () \<and>
   db (snd (cleanup onsuccess rs now s)) = Some (filter (\<lambda>e. \<not> expiration e \<le> now) store)"
  by (simp add: cleanup_def cleanupIndexedDB_def Let_def)

lemma cleanup_closed:
  "db s = None \<Longrightarrow> fst (cleanup r rs now s) = Inr () \<and> db (snd (cleanup r rs now s)) = None"
  by (simp add: cleanup_def cleanupIndexedDB_def Let_def)

lemma idb_get_filter_None:
  "idb_get k store = None \<Longrightarrow> idb_get k (filter P store) = None"
  by (induction store) (auto simp: idb_get_def split: if_splits)

lemma idb_get_absent: "k \<notin> key ` set store \<Longrightarrow> idb_get k store = None"
  by (induction store) (auto simp: idb_get_def)

lemma idb_get_swept:
  assumes "distinct (map key store)"
    and "\<forall>e. idb_get k store = Some e \<longrightarrow> expiration e \<le> now"
  shows "idb_get k (filter (\<lambda>e. \<not> expiration e \<le> now) store) = None"
  using assms
proof (induction store)
  case Nil
  then show ?case by (simp add: idb_get_def)
next
  case (Cons x xs)
  show ?case
  proof (cases "key x = k")
    case True
    with Cons.prems have "expiration x \<le> now" "k \<notin> key ` set xs"
      by (auto simp: idb_get_def)
    then show ?thesis
      using idb_get_filter_None [OF idb_get_absent, of k xs] by simp
  next
    case False
    with Cons show ?thesis by (auto simp: idb_get_def)
  qed
qed

text \<open>
  C8, amended. A \<open>get(k)\<close> that finds every stored copy of \<open>k\<close> expired returns \<open>null\<close>
  and counts a miss, and leaves both tiers as they were, the expired entry included
  (nothing else changes but what the pending statistics calls publish meanwhile). The
  entry stays until \<open>cleanup\<close> runs: a \<open>cleanup()\<close> at that time or later, whose sweep
  succeeds, leaves no entry for \<open>k\<close> in the memory map and removes from the object store
  every record that has expired, the record of \<open>k\<close> among them.
\<close>

theorem get_expired_leaves_tiers:
  assumes "\<forall>e. map_of (memoryCache s) k = Some e \<longrightarrow> expiration e \<le> now"
    and "\<forall>store e. db s = Some store \<longrightarrow> idb_get k store = Some e \<longrightarrow> expiration e \<le> now"
    and "db s = None \<or> rd = onsuccess"
  shows "get_entry rd w now k s =
           (Inr Null, (await_durable s)\<lparr>missCount := missCount s + 1\<rparr>) \<and>
         memoryCache (snd (get_entry rd w now k s)) = memoryCache s \<and>
         db (snd (get_entry rd w now k s)) = db s \<and>
         (now \<le> now' \<longrightarrow>
            fst (cleanup onsuccess rs now' (snd (get_entry rd w now k s))) = Inr () \<and>
            map_of (memoryCache (snd (cleanup onsuccess rs now' (snd (get_entry rd w now k s))))) k
              = None \<and>
            (\<forall>store. db s = Some store \<longrightarrow>
               db (snd (cleanup onsuccess rs now' (snd (get_entry rd w now k s)))) =
                 Some (filter (\<lambda>e. \<not> expiration e \<le> now') store) \<and>
               (\<forall>e. idb_get k store = Some e \<longrightarrow>
                  e \<notin> set (filter (\<lambda>e. \<not> expiration e \<le> now') store)) \<and>
               (distinct (map key store) \<longrightarrow>
                  idb_get k (filter (\<lambda>e. \<not> expiration e \<le> now') store) = None)))"
proof -
  let ?g = "snd (get_entry rd w now k s)"
  have m: "case map_of (memoryCache s) k of None \<Rightarrow> True | Some e \<Rightarrow> expiration e \<le> now"
    using assms(1) by (simp split: option.splits)
  have d: "case db s of None \<Rightarrow> True
         | Some store \<Rightarrow> rd = onsuccess \<and>
             (case idb_get k store of None \<Rightarrow> True | Some e \<Rightarrow> expiration e \<le> now)"
    using assms(2,3) by (auto split: option.splits)
  have g: "get_entry rd w now k s =
      (Inr Null, (await_durable s)\<lparr>missCount := missCount s + 1\<rparr>)"
    by (rule get_entry_miss [OF m d])
  then have tiers: "memoryCache ?g = memoryCache s" "db ?g = db s" by simp_all
  have after: "fst (cleanup onsuccess rs now' ?g) = Inr () \<and>
      map_of (memoryCache (snd (cleanup onsuccess rs now' ?g))) k = None \<and>
      (\<forall>store. db s = Some store \<longrightarrow>
         db (snd (cleanup onsuccess rs now' ?g)) =
           Some (filter (\<lambda>e. \<not> expiration e \<le> now') store) \<and>
         (\<forall>e. idb_get k store = Some e \<longrightarrow>
            e \<notin> set (filter (\<lambda>e. \<not> expiration e \<le> now') store)) \<and>
         (distinct (map key store) \<longrightarrow>
            idb_get k (filter (\<lambda>e. \<not> expiration e \<le> now') store) = None))"
    if late: "now \<le> now'"
  proof (intro conjI allI impI)
    show "fst (cleanup onsuccess rs now' ?g) = Inr ()"
      using cleanup_durable [of ?g _ rs now'] cleanup_closed [of ?g onsuccess rs now']
      by (cases "db ?g") auto
    have "\<forall>e. map_of (memoryCache ?g) k = Some e \<longrightarrow> expiration e \<le> now'"
      using assms(1) late by (auto simp: tiers)
    then show "map_of (memoryCache (snd (cleanup onsuccess rs now' ?g))) k = None"
      by (rule cleanup_memory_expired)
  next
    fix store assume st: "db s = Some store"
    then show "db (snd (cleanup onsuccess rs now' ?g)) =
        Some (filter (\<lambda>e. \<not> expiration e \<le> now') store)"
      using cleanup_durable [of ?g store rs now'] by (simp add: tiers)
    have old: "\<forall>e. idb_get k store = Some e \<longrightarrow> expiration e \<le> now'"
      using assms(2) st late by fastforce
    then show "e \<notin> set (filter (\<lambda>e. \<not> expiration e \<le> now') store)"
      if "idb_get k store = Some e" for e
      using that by auto
    show "idb_get k (filter (\<lambda>e. \<not> expiration e \<le> now') store) = None"
      if "distinct (map key store)"
      using that old by (rule idb_get_swept)
  qed
  from g tiers after show ?thesis by blast
qed

theorem get_expired_leaves_tiers_witness:
  "map_of (memoryCache example_cached) ''a'' = Some example_entry \<and>
   db example_cached = Some [example_entry] \<and>
   expiration example_entry \<le> 1100 \<and>
   fst (get_entry onsuccess onsuccess 1100 ''a'' example_cached) = Inr Null \<and>
   missCount (snd (get_entry onsuccess onsuccess 1100 ''a'' example_cached)) = 1 \<and>
   memoryCache (snd (get_entry onsuccess onsuccess 1100 ''a'' example_cached)) =
     [(''a'', example_entry)] \<and>
   db (snd (get_entry onsuccess onsuccess 1100 ''a'' example_cached)) = Some [example_entry] \<and>
   fst (cleanup onsuccess onsuccess 1100
     (snd (get_entry onsuccess onsuccess 1100 ''a'' example_cached))) = Inr () \<and>
   map_of (memoryCache (snd (cleanup onsuccess onsuccess 1100
     (snd (get_entry onsuccess onsuccess 1100 ''a'' example_cached))))) ''a'' = None \<and>
   db (snd (cleanup onsuccess onsuccess 1100
     (snd (get_entry onsuccess onsuccess 1100 ''a'' example_cached)))) = Some []"
proof -
  have m: "\<forall>e. map_of (memoryCache example_cached) ''a'' = Some e \<longrightarrow> expiration e \<le> 1100"
    by (simp add: example_cached_eq example_entry_def)
  have d: "\<forall>store e. db example_cached = Some store \<longrightarrow> idb_get ''a'' store = Some e
             \<longrightarrow> expiration e \<le> 1100"
    by (simp add: example_cached_eq example_entry_def idb_get_def)
  have r: "db example_cached = None \<or> onsuccess = onsuccess" by simp
  have f: "filter (\<lambda>e. \<not> expiration e \<le> 1100) [example_entry] = []"
    by (simp add: example_entry_def)
  have t: "map_of (memoryCache example_cached) ''a'' = Some example_entry \<and>
    db example_cached = Some [example_entry] \<and> memoryCache example_cached = [(''a'', example_entry)]
    \<and> missCount example_cached = 0 \<and> expiration example_entry \<le> 1100"
    by (simp add: example_cached_eq) (simp add: example_entry_def)
  let ?g = "snd (get_entry onsuccess onsuccess 1100 ''a'' example_cached)"
  let ?c = "snd (cleanup onsuccess onsuccess 1100 ?g)"
  note T = get_expired_leaves_tiers [OF m d r, of onsuccess 1100 onsuccess]
  from T have g: "get_entry onsuccess onsuccess 1100 ''a'' example_cached =
      (Inr Null, (await_durable example_cached)\<lparr>missCount := missCount example_cached + 1\<rparr>)"
    by blast
  from g t have a1: "fst (get_entry onsuccess onsuccess 1100 ''a'' example_cached) = Inr Null"
    and a2: "missCount ?g = 1"
    by simp_all
  from T have "memoryCache ?g = memoryCache example_cached \<and> db ?g = db example_cached"
    by blast
  with t have a3: "memoryCache ?g = [(''a'', example_entry)]" and a4: "db ?g = Some [example_entry]"
    by simp_all
  from T have c: "fst (cleanup onsuccess onsuccess 1100 ?g) = Inr () \<and>
      map_of (memoryCache ?c) ''a'' = None \<and>
      (\<forall>store. db example_cached = Some store \<longrightarrow>
         db ?c = Some (filter (\<lambda>e. \<not> expiration e \<le> 1100) store))"
    by blast
  with t f have a5: "db ?c = Some []" by simp
  from t a1 a2 a3 a4 c a5 show ?thesis by blast
qed


subsection \<open>Deletion\<close>

lemma publishStats_stats_update [simp]:
  "publishStats p (s\<lparr>stats := x\<rparr>) = publishStats p s"
  by (simp add: publishStats_def Let_def)

lemma publishStats_idem [simp]: "publishStats p (publishStats p s) = publishStats p s"
  by (simp add: publishStats_def Let_def)

lemma publishStats_db_update:
  "publishStats p (s\<lparr>db := d\<rparr>) = (publishStats p s)\<lparr>db := d\<rparr>"
  by (simp add: publishStats_def Let_def)

lemma publishStats_pending_update:
  "publishStats p (s\<lparr>pending := q\<rparr>) = (publishStats p s)\<lparr>pending := q\<rparr>"
  by (simp add: publishStats_def Let_def)

lemma memoryCache_update_same: "memoryCache x = m \<Longrightarrow> x\<lparr>memoryCache := m\<rparr> = x"
  by auto

lemma delete_entry_closed:
  "db s = None \<Longrightarrow>
   delete_entry r rs k s =
     (Inr (), publishStats \<lparr>memoryEntries = map snd (AList.delete k (memoryCache s)), dbEntries = []\<rparr>
                (s\<lparr>memoryCache := AList.delete k (memoryCache s)\<rparr>))"
  by (simp add: delete_entry_def deleteFromIndexedDB_def updateStats_def await_durable_def Let_def)

lemma delete_entry_open:
  "db s = Some store \<Longrightarrow>
   delete_entry onsuccess rs k s =
     (Inr (),
      (settle (s\<lparr>memoryCache := AList.delete k (memoryCache s)\<rparr>))
        \<lparr>db := Some (idb_delete k store),
         pending := [\<lparr>memoryEntries = map snd (AList.delete k (memoryCache s)),
                      dbEntries = (case rs of onerror \<Rightarrow> []
                                   | onsuccess \<Rightarrow> idb_getAll (idb_delete k store))\<rparr>]\<rparr>)"
  by (simp add: delete_entry_def deleteFromIndexedDB_def updateStats_def await_durable_def Let_def)

text \<open>
  C9 as stated fails for the published statistics. \<open>delete\<close> resolves before the
  snapshot of its \<open>updateStats\<close> is published: right after the first \<open>delete('a')\<close> the
  published snapshot still counts one entry, and right after the second it counts none.
\<close>

theorem delete_twice_stats_counterexample:
  "fst (delete_entry onsuccess onsuccess ''a'' example_cached) = Inr () \<and>
   fst (delete_entry onsuccess onsuccess ''a''
          (snd (delete_entry onsuccess onsuccess ''a'' example_cached))) = Inr () \<and>
   totalEntries (stats (snd (delete_entry onsuccess onsuccess ''a'' example_cached))) = 1 \<and>
   totalEntries (stats (snd (delete_entry onsuccess onsuccess ''a''
          (snd (delete_entry onsuccess onsuccess ''a'' example_cached))))) = 0"
  by (simp add: example_cached_eq delete_entry_def deleteFromIndexedDB_def idb_delete_def
      updateStats_def await_durable_def settle_def publishStats_def idb_getAll_def Let_def
      AList.delete_eq)
     (simp add: example_entry_def)

text \<open>
  C9, amended. \<open>delete(k)\<close> resolves whether or not \<open>k\<close> is stored in either tier, and a
  second \<open>delete(k)\<close> resolves too and leaves the memory map, the object store and the
  two counters as the first one left them. The snapshot of a \<open>delete\<close> is published after
  the call has resolved, so the published statistics can differ right after the two
  calls; once the pending statistics calls have published, the whole state after the
  second \<open>delete\<close>, published statistics included, is the state after the first. The
  delete requests are ones that complete, and the statistics read has the same outcome
  in both calls.
\<close>

theorem delete_twice:
  "fst (delete_entry onsuccess rs k s) = Inr () \<and>
   fst (delete_entry onsuccess rs k (snd (delete_entry onsuccess rs k s))) = Inr () \<and>
   memoryCache (snd (delete_entry onsuccess rs k (snd (delete_entry onsuccess rs k s)))) =
     memoryCache (snd (delete_entry onsuccess rs k s)) \<and>
   db (snd (delete_entry onsuccess rs k (snd (delete_entry onsuccess rs k s)))) =
     db (snd (delete_entry onsuccess rs k s)) \<and>
   hitCount (snd (delete_entry onsuccess rs k (snd (delete_entry onsuccess rs k s)))) =
     hitCount (snd (delete_entry onsuccess rs k s)) \<and>
   missCount (snd (delete_entry onsuccess rs k (snd (delete_entry onsuccess rs k s)))) =
     missCount (snd (delete_entry onsuccess rs k s)) \<and>
   settle (snd (delete_entry onsuccess rs k (snd (delete_entry onsuccess rs k s)))) =
     settle (snd (delete_entry onsuccess rs k s))"
proof (cases "db s")
  case None
  then show ?thesis
    by (simp add: delete_entry_closed AList.delete_idem memoryCache_update_same)
next
  case (Some store)
  then show ?thesis
    by (cases rs)
       (simp_all add: delete_entry_open AList.delete_idem idb_delete_idem settle_def
          memoryCache_update_same publishStats_db_update publishStats_pending_update)
qed

theorem delete_twice_witness:
  "fst (delete_entry onsuccess onsuccess ''a'' example_cached) = Inr () \<and>
   db (snd (delete_entry onsuccess onsuccess ''a'' example_cached)) = Some [] \<and>
   memoryCache (snd (delete_entry onsuccess onsuccess ''a'' example_cached)) = [] \<and>
   db (snd (delete_entry onsuccess onsuccess ''a''
         (snd (delete_entry onsuccess onsuccess ''a'' example_cached)))) = Some [] \<and>
   memoryCache (snd (delete_entry onsuccess onsuccess ''a''
         (snd (delete_entry onsuccess onsuccess ''a'' example_cached)))) = [] \<and>
   settle (snd (delete_entry onsuccess onsuccess ''a''
         (snd (delete_entry onsuccess onsuccess ''a'' example_cached)))) =
     settle (snd (delete_entry onsuccess onsuccess ''a'' example_cached)) \<and>
   totalEntries (stats (settle (snd (delete_entry onsuccess onsuccess ''a'' example_cached)))) = 0"
proof -
  have e: "db (snd (delete_entry onsuccess onsuccess ''a'' example_cached)) = Some [] \<and>
   memoryCache (snd (delete_entry onsuccess onsuccess ''a'' example_cached)) = [] \<and>
   totalEntries (stats (settle (snd (delete_entry onsuccess onsuccess ''a'' example_cached)))) = 0"
    by (simp add: example_cached_eq delete_entry_def deleteFromIndexedDB_def idb_delete_def
        updateStats_def await_durable_def settle_def publishStats_def idb_getAll_def Let_def
        AList.delete_eq)
       (simp add: example_entry_def)
  from delete_twice [of onsuccess "''a''" example_cached] e show ?thesis by simp
qed

subsection \<open>Failing durable requests\<close>

text \<open>
  C6. The code does not isolate a failing durable request. With the database open, a
  \<open>put\<close> whose request fires \<open>onerror\<close> makes \<open>set\<close> reject (the memory-tier write it
  made before is kept); a failing read makes \<open>get\<close> reject whenever the memory tier has
  no live entry for the key, and so does a failing write-back of the access statistics
  after a durable hit; a failing delete request makes \<open>delete\<close> reject.
\<close>

theorem durable_failure_rejects:
  assumes "db s = Some store"
  shows "fst (set_entry ser onerror rs now k d ttl ty s) = Inl DOMException \<and>
         memoryCache (snd (set_entry ser onerror rs now k d ttl ty s)) =
           (if calculateSize ser d < 1024 * 1024
            then memoryCache (enforceMemoryLimit
                   (s\<lparr>memoryCache := AList.update k (new_entry ser now k d ttl ty) (memoryCache s)\<rparr>))
            else memoryCache s) \<and>
         ((\<forall>e. map_of (memoryCache s) k = Some e \<longrightarrow> expiration e \<le> now) \<longrightarrow>
            fst (get_entry onerror w now k s) = Inl DOMException \<and>
            (\<forall>e. idb_get k store = Some e \<and> now < expiration e \<longrightarrow>
               fst (get_entry onsuccess onerror now k s) = Inl DOMException)) \<and>
         fst (delete_entry onerror rs k s) = Inl DOMException"
  using assms
  by (auto simp: set_entry_def get_entry_def delete_entry_def setInIndexedDB_def
      getFromIndexedDB_def deleteFromIndexedDB_def Let_def new_entry_def split: option.splits)

theorem durable_failure_rejects_witness:
  "db example_cached = Some [example_entry] \<and>
   map_of (memoryCache example_cached) ''b'' = None \<and>
   fst (set_entry ser_len onerror onsuccess 200 ''b'' (Value 5) 1000 ''analysis'' example_cached)
     = Inl DOMException \<and>
   map_of (memoryCache (snd (set_entry ser_len onerror onsuccess 200 ''b'' (Value 5) 1000
     ''analysis'' example_cached))) ''b'' = Some (new_entry ser_len 200 ''b'' (Value 5) 1000 ''analysis'') \<and>
   fst (get_entry onerror onsuccess 200 ''b'' example_cached) = Inl DOMException \<and>
   fst (get_entry onsuccess onerror 200 ''a'' example_durable_only) = Inl DOMException \<and>
   fst (delete_entry onerror onsuccess ''b'' example_cached) = Inl DOMException"
proof -
  have d: "db example_cached = Some [example_entry]"
    by (simp add: example_cached_eq)
  have m: "map_of (memoryCache example_cached) ''b'' = None"
    by (simp add: example_cached_eq)
  have d': "db example_durable_only = Some [example_entry]"
    and m': "\<forall>e. map_of (memoryCache example_durable_only) ''a'' = Some e \<longrightarrow> expiration e \<le> 200"
    by (simp_all add: example_durable_only_eq)
  have i': "idb_get ''a'' [example_entry] = Some example_entry \<and> 200 < expiration example_entry"
    by (simp add: idb_get_def example_entry_def)
  have u: "map_of (memoryCache (enforceMemoryLimit (example_cached\<lparr>memoryCache :=
      AList.update ''b'' (new_entry ser_len 200 ''b'' (Value 5) 1000 ''analysis'')
        (memoryCache example_cached)\<rparr>))) ''b'' =
      Some (new_entry ser_len 200 ''b'' (Value 5) 1000 ''analysis'')"
    by (simp add: example_cached_eq enforceMemoryLimit_def calculateMemoryUsage_def
        MAX_MEMORY_CACHE_SIZE_def Let_def new_entry_def)
       (simp add: example_entry_def)
  have g: "fst (get_entry onsuccess onerror 200 ''a'' example_durable_only) = Inl DOMException"
    using durable_failure_rejects [OF d', of ser_len onsuccess 200 "''a''" "Value 5" 1000
        "''analysis''" onsuccess] m' i'
    by blast
  from durable_failure_rejects [OF d, of ser_len onsuccess 200 "''b''" "Value 5" 1000
      "''analysis''" onsuccess]
  show ?thesis using d m u g by simp
qed


subsection \<open>Hit rate\<close>

lemma get_entry_durable_hit:
  assumes "case map_of (memoryCache s) k of None \<Rightarrow> True | Some e \<Rightarrow> expiration e \<le> now"
    and "db s = Some store" "idb_get k store = Some e" "expiration e > now"
  shows "fst (get_entry onsuccess onsuccess now k s) = Inr (data e) \<and>
         hitCount (snd (get_entry onsuccess onsuccess now k s)) = hitCount s + 1 \<and>
         missCount (snd (get_entry onsuccess onsuccess now k s)) = missCount s"
  using assms
  by (auto simp: get_entry_def getFromIndexedDB_def setInIndexedDB_def Let_def
      split: option.splits)

lemma get_entry_served:
  assumes "served now k s"
  shows "(\<exists>e. now < expiration e \<and>
            (map_of (memoryCache s) k = Some e \<or>
             (\<exists>store. db s = Some store \<and> idb_get k store = Some e)) \<and>
            fst (get_entry onsuccess onsuccess now k s) = Inr (data e)) \<and>
         hitCount (snd (get_entry onsuccess onsuccess now k s)) = hitCount s + 1 \<and>
         missCount (snd (get_entry onsuccess onsuccess now k s)) = missCount s"
proof (cases "case map_of (memoryCache s) k of None \<Rightarrow> False | Some e \<Rightarrow> now < expiration e")
  case True
  then obtain e where e: "map_of (memoryCache s) k = Some e" "now < expiration e"
    by (auto split: option.splits)
  from get_entry_memory_hit [OF this, of onsuccess onsuccess] e show ?thesis by auto
next
  case False
  with assms obtain store e where d: "db s = Some store" "idb_get k store = Some e"
    "now < expiration e"
    by (auto simp: served_def split: option.splits)
  from False have "case map_of (memoryCache s) k of None \<Rightarrow> True | Some e \<Rightarrow> expiration e \<le> now"
    by (auto split: option.splits)
  from get_entry_durable_hit [OF this d] d show ?thesis by auto
qed

lemma get_entry_not_served:
  assumes "\<not> served now k s"
  shows "fst (get_entry onsuccess onsuccess now k s) = Inr Null \<and>
         hitCount (snd (get_entry onsuccess onsuccess now k s)) = hitCount s \<and>
         missCount (snd (get_entry onsuccess onsuccess now k s)) = missCount s + 1"
proof -
  have "get_entry onsuccess onsuccess now k s =
      (Inr Null, (await_durable s)\<lparr>missCount := missCount s + 1\<rparr>)"
    using assms
    by (intro get_entry_miss) (auto simp: served_def split: option.splits)
  then show ?thesis by simp
qed

lemma gets_counters:
  "hitCount (gets gs s) = hitCount s + hits gs s \<and>
   missCount (gets gs s) = missCount s + misses gs s"
proof (induction gs arbitrary: s)
  case Nil
  then show ?case by simp
next
  case (Cons g gs)
  obtain now k where g: "g = (now, k)" by (cases g)
  show ?case
    using Cons.IH [of "snd (get_entry onsuccess onsuccess now k s)"]
      get_entry_served [of now k s] get_entry_not_served [of now k s]
    by (cases "served now k s") (simp_all add: g)
qed

lemma hits_misses_length: "hits gs s + misses gs s = length gs"
proof (induction gs arbitrary: s)
  case Nil
  then show ?case by simp
next
  case (Cons g gs)
  obtain now k where g: "g = (now, k)" by (cases g)
  from Cons.IH [of "snd (get_entry onsuccess onsuccess now k s)"] show ?case
    by (simp add: g)
qed

lemma get_entry_publishes_nothing:
  assumes "pending s = []"
  shows "stats (snd (get_entry rd w now k s)) = stats s \<and>
         pending (snd (get_entry rd w now k s)) = []"
  using assms
  by (auto simp: get_entry_def getFromIndexedDB_def setInIndexedDB_def Let_def
      await_durable_idle split: option.splits sum.splits idb_result.splits)

lemma gets_publish_nothing:
  "pending s = [] \<Longrightarrow> stats (gets gs s) = stats s \<and> pending (gets gs s) = []"
proof (induction gs arbitrary: s)
  case Nil
  then show ?case by simp
next
  case (Cons g gs)
  obtain now k where g: "g = (now, k)" by (cases g)
  from get_entry_publishes_nothing [OF Cons.prems, of onsuccess onsuccess now k]
    Cons.IH [of "snd (get_entry onsuccess onsuccess now k s)"]
  show ?case by (simp add: g)
qed

lemma publishStats_hitRate:
  "hitRate (stats (publishStats p s)) =
     (if hitCount s + missCount s = 0 then 0
      else real (hitCount s) / real (hitCount s + missCount s) * 100)"
  by (simp add: publishStats_def Let_def)

lemma fold_publishStats_hitRate:
  "ps \<noteq> [] \<Longrightarrow>
   hitRate (stats (fold publishStats ps s)) =
     (if hitCount s + missCount s = 0 then 0
      else real (hitCount s) / real (hitCount s + missCount s) * 100)"
proof (induction ps arbitrary: s)
  case Nil
  then show ?case by simp
next
  case (Cons p ps)
  show ?case
  proof (cases "ps = []")
    case True
    then show ?thesis by (simp add: publishStats_hitRate)
  next
    case False
    from Cons.IH [OF False, of "publishStats p s"] show ?thesis by simp
  qed
qed

lemma settle_hitRate:
  "pending s \<noteq> [] \<Longrightarrow>
   hitRate (stats (settle s)) =
     (if hitCount s + missCount s = 0 then 0
      else real (hitCount s) / real (hitCount s + missCount s) * 100)"
  using fold_publishStats_hitRate [of "pending s" "s\<lparr>pending := []\<rparr>"]
  by (simp add: settle_def)

lemma settle_updateStats_hitRate:
  "hitRate (stats (settle (updateStats rs s))) =
     (if hitCount s + missCount s = 0 then 0
      else real (hitCount s) / real (hitCount s + missCount s) * 100)"
proof (cases "db s")
  case (Some store)
  then have "pending (updateStats rs s) \<noteq> []" by (simp add: updateStats_def)
  from settle_hitRate [OF this] show ?thesis by simp
next
  case None
  let ?u = "updateStats rs s"
  have u: "hitRate (stats ?u) =
     (if hitCount s + missCount s = 0 then 0
      else real (hitCount s) / real (hitCount s + missCount s) * 100)"
    using None by (simp add: updateStats_def publishStats_hitRate)
  show ?thesis
  proof (cases "pending ?u = []")
    case True
    with u show ?thesis by (simp add: settle_idle)
  next
    case False
    from settle_hitRate [OF this] show ?thesis by simp
  qed
qed

lemma set_entry_published:
  "fst (set_entry ser w rs now k d ttl ty s) = Inr () \<Longrightarrow>
   hitCount (snd (set_entry ser w rs now k d ttl ty s)) = hitCount s \<and>
   missCount (snd (set_entry ser w rs now k d ttl ty s)) = missCount s \<and>
   hitRate (stats (settle (snd (set_entry ser w rs now k d ttl ty s)))) =
     (if hitCount s + missCount s = 0 then 0
      else real (hitCount s) / real (hitCount s + missCount s) * 100)"
  by (cases "calculateSize ser d < 1024 * 1024")
     (auto simp: set_entry_def setInIndexedDB_def Let_def settle_updateStats_hitRate
        split: option.splits idb_result.splits)

lemma delete_entry_published:
  "fst (delete_entry r rs k s) = Inr () \<Longrightarrow>
   hitCount (snd (delete_entry r rs k s)) = hitCount s \<and>
   missCount (snd (delete_entry r rs k s)) = missCount s \<and>
   hitRate (stats (settle (snd (delete_entry r rs k s)))) =
     (if hitCount s + missCount s = 0 then 0
      else real (hitCount s) / real (hitCount s + missCount s) * 100)"
  by (auto simp: delete_entry_def deleteFromIndexedDB_def Let_def settle_updateStats_hitRate
      split: option.splits idb_result.splits)

lemma cleanup_published:
  "fst (cleanup r rs now s) = Inr () \<Longrightarrow>
   hitCount (snd (cleanup r rs now s)) = hitCount s \<and>
   missCount (snd (cleanup r rs now s)) = missCount s \<and>
   hitRate (stats (settle (snd (cleanup r rs now s)))) =
     (if hitCount s + missCount s = 0 then 0
      else real (hitCount s) / real (hitCount s + missCount s) * 100)"
  by (auto simp: cleanup_def cleanupIndexedDB_def Let_def settle_updateStats_hitRate
      split: option.splits idb_result.splits)

lemma clear_published:
  "fst (clear r rs s) = Inr () \<Longrightarrow>
   hitCount (snd (clear r rs s)) = 0 \<and> missCount (snd (clear r rs s)) = 0 \<and>
   hitRate (stats (settle (snd (clear r rs s)))) = 0"
  by (auto simp: clear_def clearIndexedDB_def Let_def settle_updateStats_hitRate
      split: option.splits idb_result.splits)

text \<open>
  C7 as stated fails twice over. After \<open>set('a')\<close> and one \<open>get('a')\<close> that hits, there
  are one hit and no miss, and \<open>H / (H + M)\<close> is \<open>1 / (1 + 0)\<close>. \<open>get\<close> publishes nothing,
  so the published snapshot still shows 0; and once the pending statistics call of
  \<open>set\<close> has published, the hit rate is the percentage 100.
\<close>

theorem hitRate_counterexample:
  "fst (get_entry onsuccess onsuccess 200 ''a'' example_cached) = Inr (Value 3) \<and>
   hitCount example_hit = 1 \<and> missCount example_hit = 0 \<and>
   hitRate (stats example_hit) = 0 \<and>
   hitRate (stats example_hit) \<noteq> real 1 / real (1 + 0) \<and>
   hitRate (stats (settle example_hit)) = 100 \<and>
   hitRate (stats (settle example_hit)) \<noteq> real 1 / real (1 + 0)"
proof -
  have "fst (get_entry onsuccess onsuccess 200 ''a'' example_cached) = Inr (Value 3)"
    by (simp add: example_cached_eq get_entry_def) (simp add: example_entry_def)
  moreover have "hitRate (stats (settle example_hit)) = 100"
    by (simp add: example_hit_eq settle_def publishStats_def Let_def)
  ultimately show ?thesis by (simp add: example_hit_eq)
qed

text \<open>
  C7, amended. A \<open>get\<close> that finds a live entry in one of the tiers returns its payload
  and adds one to the hit counter; a \<open>get\<close> that finds none returns \<open>null\<close> and adds one
  to the miss counter. So after a sequence of \<open>get\<close> calls with \<open>H\<close> hits and \<open>M\<close> misses
  the counters have grown by \<open>H\<close> and by \<open>M\<close>. \<open>get\<close> calls \<open>updateStats\<close> nowhere: with
  no statistics call pending the published snapshot stays as it was. A statistics call
  that is pending after these calls, or the one that a resolving \<open>set\<close>, \<open>delete\<close> or
  \<open>cleanup\<close> after them issues, publishes when it completes the hit rate
  \<open>h / (h + m) * 100\<close>, a percentage, or 0 when \<open>h + m = 0\<close>, for the counters \<open>h\<close> and \<open>m\<close>
  of that moment, which \<open>set\<close>, \<open>delete\<close> and \<open>cleanup\<close> do not change. A resolving \<open>clear\<close>
  sets both counters to zero and its snapshot has the hit rate 0. (The quotient is taken
  in the reals.)
\<close>

theorem hitRate_published:
  "(served now k s \<longrightarrow>
      (\<exists>e. now < expiration e \<and>
            (map_of (memoryCache s) k = Some e \<or>
             (\<exists>store. db s = Some store \<and> idb_get k store = Some e)) \<and>
            fst (get_entry onsuccess onsuccess now k s) = Inr (data e)) \<and>
      hitCount (snd (get_entry onsuccess onsuccess now k s)) = hitCount s + 1 \<and>
      missCount (snd (get_entry onsuccess onsuccess now k s)) = missCount s) \<and>
   (\<not> served now k s \<longrightarrow>
      fst (get_entry onsuccess onsuccess now k s) = Inr Null \<and>
      hitCount (snd (get_entry onsuccess onsuccess now k s)) = hitCount s \<and>
      missCount (snd (get_entry onsuccess onsuccess now k s)) = missCount s + 1) \<and>
   hits gs s + misses gs s = length gs \<and>
   hitCount (gets gs s) = hitCount s + hits gs s \<and>
   missCount (gets gs s) = missCount s + misses gs s \<and>
   (pending s = [] \<longrightarrow> stats (gets gs s) = stats s \<and> pending (gets gs s) = []) \<and>
   (pending (gets gs s) \<noteq> [] \<longrightarrow>
      hitRate (stats (settle (gets gs s))) =
        (if hitCount (gets gs s) + missCount (gets gs s) = 0 then 0
         else real (hitCount (gets gs s)) /
              real (hitCount (gets gs s) + missCount (gets gs s)) * 100)) \<and>
   (fst (set_entry ser w rs now k v ttl ty (gets gs s)) = Inr () \<longrightarrow>
      hitCount (snd (set_entry ser w rs now k v ttl ty (gets gs s))) = hitCount (gets gs s) \<and>
      missCount (snd (set_entry ser w rs now k v ttl ty (gets gs s))) = missCount (gets gs s) \<and>
      hitRate (stats (settle (snd (set_entry ser w rs now k v ttl ty (gets gs s))))) =
        (if hitCount (gets gs s) + missCount (gets gs s) = 0 then 0
         else real (hitCount (gets gs s)) /
              real (hitCount (gets gs s) + missCount (gets gs s)) * 100)) \<and>
   (fst (delete_entry w rs k (gets gs s)) = Inr () \<longrightarrow>
      hitCount (snd (delete_entry w rs k (gets gs s))) = hitCount (gets gs s) \<and>
      missCount (snd (delete_entry w rs k (gets gs s))) = missCount (gets gs s) \<and>
      hitRate (stats (settle (snd (delete_entry w rs k (gets gs s))))) =
        (if hitCount (gets gs s) + missCount (gets gs s) = 0 then 0
         else real (hitCount (gets gs s)) /
              real (hitCount (gets gs s) + missCount (gets gs s)) * 100)) \<and>
   (fst (cleanup w rs now (gets gs s)) = Inr () \<longrightarrow>
      hitCount (snd (cleanup w rs now (gets gs s))) = hitCount (gets gs s) \<and>
      missCount (snd (cleanup w rs now (gets gs s))) = missCount (gets gs s) \<and>
      hitRate (stats (settle (snd (cleanup w rs now (gets gs s))))) =
        (if hitCount (gets gs s) + missCount (gets gs s) = 0 then 0
         else real (hitCount (gets gs s)) /
              real (hitCount (gets gs s) + missCount (gets gs s)) * 100)) \<and>
   (fst (clear w rs s) = Inr () \<longrightarrow>
      hitCount (snd (clear w rs s)) = 0 \<and> missCount (snd (clear w rs s)) = 0 \<and>
      hitRate (stats (settle (snd (clear w rs s)))) = 0)"
  using get_entry_served [of now k s] get_entry_not_served [of now k s]
    hits_misses_length [of gs s] gets_counters [of gs s] gets_publish_nothing [of s gs]
    settle_hitRate [of "gets gs s"]
    set_entry_published [of ser w rs now k v ttl ty "gets gs s"]
    delete_entry_published [of w rs k "gets gs s"]
    cleanup_published [of w rs now "gets gs s"] clear_published [of w rs s]
  by blast

theorem hitRate_published_witness:
  "served 200 ''a'' example_cached \<and>
   fst (get_entry onsuccess onsuccess 200 ''a'' example_cached) = Inr (Value 3) \<and>
   hits [(200, ''a''), (300, ''z'')] example_cached = 1 \<and>
   misses [(200, ''a''), (300, ''z'')] example_cached = 1 \<and>
   hitCount (gets [(200, ''a''), (300, ''z'')] example_cached) = 1 \<and>
   missCount (gets [(200, ''a''), (300, ''z'')] example_cached) = 1 \<and>
   pending (gets [(200, ''a'')] example_cached) \<noteq> [] \<and>
   hitCount (gets [(200, ''a'')] example_cached) = 1 \<and>
   missCount (gets [(200, ''a'')] example_cached) = 0 \<and>
   hitRate (stats (settle (gets [(200, ''a'')] example_cached))) = 100 \<and>
   fst (delete_entry onsuccess onsuccess ''b'' (gets [(200, ''a''), (300, ''z'')] example_cached))
     = Inr () \<and>
   hitRate (stats (settle (snd (delete_entry onsuccess onsuccess ''b''
     (gets [(200, ''a''), (300, ''z'')] example_cached))))) = 50 \<and>
   fst (clear onsuccess onsuccess example_cached) = Inr () \<and>
   hitCount (snd (clear onsuccess onsuccess example_cached)) = 0 \<and>
   missCount (snd (clear onsuccess onsuccess example_cached)) = 0 \<and>
   hitRate (stats (settle (snd (clear onsuccess onsuccess example_cached)))) = 0"
proof -
  let ?gs = "[(200, ''a''), (300, ''z'')]"
  note T = hitRate_published [where now = 200 and k = "''a''" and s = example_cached
      and gs = ?gs and w = onsuccess and rs = onsuccess and ser = ser_len and v = "Value 1"
      and ttl = 1000 and ty = "''analysis''"]
  note T' = hitRate_published [where now = 200 and k = "''b''" and s = example_cached
      and gs = ?gs and w = onsuccess and rs = onsuccess and ser = ser_len and v = "Value 1"
      and ttl = 1000 and ty = "''analysis''"]
  note T1 = hitRate_published [where now = 200 and k = "''a''" and s = example_cached
      and gs = "[(200, ''a'')]" and w = onsuccess and rs = onsuccess and ser = ser_len
      and v = "Value 1" and ttl = 1000 and ty = "''analysis''"]
  have g1: "gets [(200, ''a'')] example_cached = example_hit"
    by (simp add: example_hit_def)
  have p1: "pending (gets [(200, ''a'')] example_cached) \<noteq> [] \<and>
      hitCount (gets [(200, ''a'')] example_cached) = 1 \<and>
      missCount (gets [(200, ''a'')] example_cached) = 0"
    unfolding g1 by (simp add: example_hit_eq)
  from T1 p1 have "hitRate (stats (settle (gets [(200, ''a'')] example_cached))) =
      (if hitCount (gets [(200, ''a'')] example_cached) +
          missCount (gets [(200, ''a'')] example_cached) = 0 then 0
       else real (hitCount (gets [(200, ''a'')] example_cached)) /
            real (hitCount (gets [(200, ''a'')] example_cached) +
                  missCount (gets [(200, ''a'')] example_cached)) * 100)"
    by blast
  with p1 have r1: "hitRate (stats (settle (gets [(200, ''a'')] example_cached))) = 100"
    by simp
  have sv: "served 200 ''a'' example_cached"
    by (simp add: served_def example_cached_eq) (simp add: example_entry_def)
  have v: "fst (get_entry onsuccess onsuccess 200 ''a'' example_cached) = Inr (Value 3)"
    by (simp add: example_cached_eq get_entry_def) (simp add: example_entry_def)
  have nsv: "\<not> served 300 ''z'' (snd (get_entry onsuccess onsuccess 200 ''a'' example_cached))"
    by (simp add: served_def example_cached_eq get_entry_def idb_get_def)
       (simp add: example_entry_def)
  have h: "hits ?gs example_cached = 1" and m: "misses ?gs example_cached = 1"
    using sv nsv by simp_all
  have c0: "hitCount example_cached = 0 \<and> missCount example_cached = 0"
    by (simp add: example_cached_eq)
  from T h m c0 have cnt: "hitCount (gets ?gs example_cached) = 1 \<and>
      missCount (gets ?gs example_cached) = 1"
    by simp
  have dl: "fst (delete_entry onsuccess onsuccess ''b'' (gets ?gs example_cached)) = Inr ()"
    by (cases "db (gets ?gs example_cached)")
       (simp_all add: delete_entry_def deleteFromIndexedDB_def Let_def)
  have cl: "fst (clear onsuccess onsuccess example_cached) = Inr ()"
    by (simp add: example_cached_eq clear_def clearIndexedDB_def Let_def)
  from T' dl have "hitRate (stats (settle (snd (delete_entry onsuccess onsuccess ''b''
      (gets ?gs example_cached))))) =
      (if hitCount (gets ?gs example_cached) + missCount (gets ?gs example_cached) = 0 then 0
       else real (hitCount (gets ?gs example_cached)) /
            real (hitCount (gets ?gs example_cached) + missCount (gets ?gs example_cached)) * 100)"
    by blast
  with cnt have rate: "hitRate (stats (settle (snd (delete_entry onsuccess onsuccess ''b''
      (gets ?gs example_cached))))) = 50"
    by simp
  from T cl have clr: "hitCount (snd (clear onsuccess onsuccess example_cached)) = 0 \<and>
      missCount (snd (clear onsuccess onsuccess example_cached)) = 0 \<and>
      hitRate (stats (settle (snd (clear onsuccess onsuccess example_cached)))) = 0"
    by blast
  from sv v h m cnt p1 r1 dl rate cl clr show ?thesis by blast
qed


subsection \<open>What \<open>set\<close> leaves behind\<close>

lemma set_entry_memory:
  assumes "calculateSize ser d < 1024 * 1024"
  shows "map_of (memoryCache (snd (set_entry ser w rs now k d ttl ty s))) k = None \<or>
         map_of (memoryCache (snd (set_entry ser w rs now k d ttl ty s))) k =
           Some (new_entry ser now k d ttl ty)"
proof -
  let ?e = "new_entry ser now k d ttl ty"
  let ?s0 = "s\<lparr>memoryCache := AList.update k ?e (memoryCache s)\<rparr>"
  have "memoryCache (snd (set_entry ser w rs now k d ttl ty s)) = memoryCache (enforceMemoryLimit ?s0)"
    using assms
    by (auto simp: set_entry_def new_entry_def setInIndexedDB_def Let_def
        split: option.splits idb_result.splits)
  moreover have "map_of (memoryCache ?s0) k = Some ?e"
    by (simp add: update_conv')
  ultimately show ?thesis
    using enforceMemoryLimit_lookup [of ?s0 k] by auto
qed

lemma set_entry_durable:
  assumes "fst (set_entry ser w rs now k d ttl ty s) = Inr ()" "db s = Some store"
  shows "db (snd (set_entry ser w rs now k d ttl ty s)) =
           Some (idb_put (new_entry ser now k d ttl ty) store)"
  using assms
  by (cases "calculateSize ser d < 1024 * 1024")
     (auto simp: set_entry_def new_entry_def setInIndexedDB_def Let_def
        split: option.splits idb_result.splits)

lemma set_entry_db_None:
  "db s = None \<Longrightarrow> db (snd (set_entry ser w rs now k d ttl ty s)) = None"
  by (cases "calculateSize ser d < 1024 * 1024")
     (auto simp: set_entry_def new_entry_def setInIndexedDB_def Let_def
        split: option.splits idb_result.splits)

lemma get_entry_only_copy:
  assumes mem: "map_of (memoryCache s) k = None \<or> map_of (memoryCache s) k = Some e"
    and dur: "\<And>store. db s = Some store \<Longrightarrow> idb_get k store = Some e"
    and held: "map_of (memoryCache s) k \<noteq> None \<or> db s \<noteq> None"
    and live: "now < expiration e"
  shows "fst (get_entry onsuccess onsuccess now k s) = Inr (data e) \<and>
         hitCount (snd (get_entry onsuccess onsuccess now k s)) = hitCount s + 1 \<and>
         missCount (snd (get_entry onsuccess onsuccess now k s)) = missCount s"
proof (cases "map_of (memoryCache s) k")
  case None
  with held obtain store where st: "db s = Some store" by auto
  from None have "case map_of (memoryCache s) k of None \<Rightarrow> True | Some e \<Rightarrow> expiration e \<le> now"
    by simp
  from get_entry_durable_hit [OF this st dur [OF st] live] show ?thesis .
next
  case (Some a)
  with mem have "map_of (memoryCache s) k = Some e" by simp
  from get_entry_memory_hit [OF this live, of onsuccess onsuccess] show ?thesis by simp
qed

subsection \<open>A stored \<open>null\<close>\<close>

text \<open>
  C10. After a \<open>set(k, null, ttl)\<close> that resolves at time \<open>now\<close> and whose entry is held
  by at least one tier, a \<open>get(k)\<close> before \<open>now + ttl\<close> returns \<open>null\<close>, the value a miss
  returns, while it counts a hit and no miss; and \<open>has(k)\<close> returns \<open>false\<close>.
\<close>

theorem null_payload_looks_absent:
  assumes set_ok: "set_entry ser w rs now k Null ttl ty s = (Inr (), s1)"
    and held: "map_of (memoryCache s1) k \<noteq> None \<or> db s1 \<noteq> None"
    and live: "now' < now + ttl"
  shows "fst (get_entry onsuccess onsuccess now' k s1) = Inr Null \<and>
         hitCount (snd (get_entry onsuccess onsuccess now' k s1)) = hitCount s1 + 1 \<and>
         missCount (snd (get_entry onsuccess onsuccess now' k s1)) = missCount s1 \<and>
         fst (has onsuccess onsuccess now' k s1) = Inr False"
proof -
  let ?e = "new_entry ser now k Null ttl ty"
  have s1: "s1 = snd (set_entry ser w rs now k Null ttl ty s)"
    and ok: "fst (set_entry ser w rs now k Null ttl ty s) = Inr ()"
    using set_ok by simp_all
  have mem: "map_of (memoryCache s1) k = None \<or> map_of (memoryCache s1) k = Some ?e"
    unfolding s1 by (rule set_entry_memory) simp
  have dur: "idb_get k store = Some ?e" if "db s1 = Some store" for store
  proof (cases "db s")
    case None
    from set_entry_db_None [OF this] that show ?thesis by (simp add: s1)
  next
    case (Some st)
    from set_entry_durable [OF ok this] that show ?thesis
      by (auto simp: s1 idb_get_put new_entry_def)
  qed
  have "now' < expiration ?e" using live by (simp add: new_entry_def)
  from get_entry_only_copy [OF mem dur held this]
  have g: "fst (get_entry onsuccess onsuccess now' k s1) = Inr Null \<and>
         hitCount (snd (get_entry onsuccess onsuccess now' k s1)) = hitCount s1 + 1 \<and>
         missCount (snd (get_entry onsuccess onsuccess now' k s1)) = missCount s1"
    by (simp add: new_entry_def)
  then have "fst (has onsuccess onsuccess now' k s1) = Inr False"
    by (cases "get_entry onsuccess onsuccess now' k s1") (auto simp: has_def)
  with g show ?thesis by simp
qed

theorem null_payload_looks_absent_witness:
  "set_entry ser_len onsuccess onsuccess 100 ''n'' Null 1000 ''analysis'' example_open =
     (Inr (), snd (set_entry ser_len onsuccess onsuccess 100 ''n'' Null 1000 ''analysis'' example_open)) \<and>
   (100::int) < 100 + 1000 \<and>
   fst (get_entry onsuccess onsuccess 100 ''n''
     (snd (set_entry ser_len onsuccess onsuccess 100 ''n'' Null 1000 ''analysis'' example_open))) = Inr Null \<and>
   hitCount (snd (get_entry onsuccess onsuccess 100 ''n''
     (snd (set_entry ser_len onsuccess onsuccess 100 ''n'' Null 1000 ''analysis'' example_open)))) = 1 \<and>
   missCount (snd (get_entry onsuccess onsuccess 100 ''n''
     (snd (set_entry ser_len onsuccess onsuccess 100 ''n'' Null 1000 ''analysis'' example_open)))) = 0 \<and>
   fst (has onsuccess onsuccess 100 ''n''
     (snd (set_entry ser_len onsuccess onsuccess 100 ''n'' Null 1000 ''analysis'' example_open))) = Inr False \<and>
   fst (get_entry onsuccess onsuccess 100 ''n'' example_open) = Inr Null"
proof -
  let ?s1 = "snd (set_entry ser_len onsuccess onsuccess 100 ''n'' Null 1000 ''analysis'' example_open)"
  have a: "set_entry ser_len onsuccess onsuccess 100 ''n'' Null 1000 ''analysis'' example_open = (Inr (), ?s1)"
    by (simp add: example_open_eq set_entry_def setInIndexedDB_def Let_def)
  have d: "db ?s1 = Some [new_entry ser_len 100 ''n'' Null 1000 ''analysis'']"
    by (simp add: example_open_eq set_entry_def setInIndexedDB_def Let_def new_entry_def)
  then have b: "map_of (memoryCache ?s1) ''n'' \<noteq> None \<or> db ?s1 \<noteq> None" by simp
  have c: "(100::int) < 100 + 1000" by simp
  have h: "hitCount ?s1 = 0 \<and> missCount ?s1 = 0"
    by (simp add: example_open_eq set_entry_def setInIndexedDB_def Let_def)
  have m: "fst (get_entry onsuccess onsuccess 100 ''n'' example_open) = Inr Null"
    by (simp add: example_open_eq get_entry_def getFromIndexedDB_def idb_get_def)
  from null_payload_looks_absent [OF a b c] a c h m show ?thesis by simp
qed

subsection \<open>Write-through\<close>

lemma retains_weaken:
  assumes "retains k v ex s" "db s' = db s"
    "map_of (memoryCache s') k = None \<or> map_of (memoryCache s') k = map_of (memoryCache s) k"
  shows "retains k v ex s'"
  using assms by (auto simp: retains_def split: option.splits)

lemma retains_enforce: "retains k v ex s \<Longrightarrow> retains k v ex (enforceMemoryLimit s)"
  using enforceMemoryLimit_lookup [of s k] by (rule_tac retains_weaken) auto

lemma retains_memory_set:
  assumes "retains k v ex s" "k' = k \<longrightarrow> data e = v \<and> expiration e = ex"
  shows "retains k v ex (s\<lparr>memoryCache := AList.update k' e (memoryCache s)\<rparr>)"
  using assms by (auto simp: retains_def update_conv' split: option.splits)

lemma retains_put:
  assumes "retains k v ex s" "key e = k \<longrightarrow> data e = v \<and> expiration e = ex"
    "setInIndexedDB w e s = Inr s'"
  shows "retains k v ex s'"
proof -
  from assms(1) obtain store where st: "db s = Some store"
    by (auto simp: retains_def split: option.splits)
  with assms(3) have s': "s' = s\<lparr>db := Some (idb_put e store)\<rparr>"
    by (cases w) (simp_all add: setInIndexedDB_def)
  show ?thesis
  proof (cases "key e = k")
    case True
    with assms(1,2) show ?thesis
      by (simp add: retains_def s' idb_get_put)
  next
    case False
    with assms(1) st show ?thesis
      by (simp add: retains_def s' idb_get_put)
  qed
qed

lemma retains_counters:
  "retains k v ex (s\<lparr>hitCount := h\<rparr>) = retains k v ex s"
  "retains k v ex (s\<lparr>missCount := m\<rparr>) = retains k v ex s"
  "retains k v ex (updateStats r s) = retains k v ex s"
  "retains k v ex (await_durable s) = retains k v ex s"
  by (simp_all add: retains_def)

lemma retains_get:
  assumes "retains k v ex s"
  shows "retains k v ex (snd (get_entry rd w now k' s))"
proof (cases "case map_of (memoryCache s) k' of None \<Rightarrow> None
            | Some entry \<Rightarrow> if expiration entry > now then Some entry else None")
  case (Some entry)
  then have m: "map_of (memoryCache s) k' = Some entry"
    by (auto split: option.splits if_splits)
  have "retains k v ex (s\<lparr>memoryCache :=
      AList.update k' (entry\<lparr>accessCount := accessCount entry + 1, lastAccessed := now\<rparr>)
        (memoryCache s)\<rparr>)"
    using assms m by (intro retains_memory_set) (auto simp: retains_def)
  then show ?thesis using Some by (simp add: get_entry_def retains_counters)
next
  case None
  let ?sa = "await_durable s"
  have ra: "retains k v ex ?sa" using assms by (simp add: retains_counters)
  show ?thesis
  proof (cases "getFromIndexedDB rd k' ?sa")
    case (Inl err)
    with None ra show ?thesis by (simp add: get_entry_def Let_def)
  next
    case (Inr dbEntry)
    show ?thesis
    proof (cases "case dbEntry of None \<Rightarrow> None
            | Some entry \<Rightarrow> if expiration entry > now then Some entry else None")
      case None': None
      with None Inr ra show ?thesis by (simp add: get_entry_def Let_def retains_counters)
    next
      case (Some entry0)
      then have de: "dbEntry = Some entry0" by (auto split: option.splits if_splits)
      let ?entry = "entry0\<lparr>accessCount := accessCount entry0 + 1, lastAccessed := now\<rparr>"
      let ?s0 = "if accessCount ?entry > 2 \<and> size_meta (metadata ?entry) < 1024 * 1024
                 then enforceMemoryLimit
                        (?sa\<lparr>memoryCache := AList.update k' ?entry (memoryCache ?sa)\<rparr>)
                 else ?sa"
      let ?s1 = "await_durable ?s0"
      from Inr de obtain store where st: "db s = Some store" "idb_get k' store = Some entry0"
        by (auto simp: getFromIndexedDB_def split: option.splits idb_result.splits)
      have ke: "key ?entry = k'" using idb_get_key [OF st(2)] by simp
      have good: "k' = k \<longrightarrow> data ?entry = v \<and> expiration ?entry = ex"
        using assms st by (auto simp: retains_def)
      have u: "retains k v ex (?sa\<lparr>memoryCache := AList.update k' ?entry (memoryCache ?sa)\<rparr>)"
        using ra good by (rule retains_memory_set)
      have "retains k v ex ?s0"
      proof (cases "accessCount ?entry > 2 \<and> size_meta (metadata ?entry) < 1024 * 1024")
        case True
        with retains_enforce [OF u] show ?thesis by (simp only: if_True simp_thms)
      next
        case False
        with ra show ?thesis by (simp only: if_False simp_thms)
      qed
      then have r1: "retains k v ex ?s1" by (simp only: retains_counters)
      have g: "get_entry rd w now k' s =
        (case setInIndexedDB w ?entry ?s1 of
           Inl err \<Rightarrow> (Inl err, ?s1)
         | Inr s2 \<Rightarrow> (Inr (data ?entry), s2\<lparr>hitCount := hitCount s2 + 1\<rparr>))"
        unfolding get_entry_def Let_def by (simp only: None Inr Some option.case sum.case)
      show ?thesis
      proof (cases "setInIndexedDB w ?entry ?s1")
        case (Inl err)
        with g r1 show ?thesis by simp
      next
        case (Inr s2)
        from retains_put [OF r1 _ Inr] good ke have "retains k v ex s2" by auto
        with g Inr show ?thesis by (simp add: retains_counters)
      qed
    qed
  qed
qed

lemma retains_has:
  "retains k v ex s \<Longrightarrow> retains k v ex (snd (has rd w now k' s))"
  using retains_get [of k v ex s rd w now k']
  by (cases "get_entry rd w now k' s") (auto simp: has_def split: sum.splits)

lemma retains_set_other:
  assumes "retains k v ex s" "k' \<noteq> k"
  shows "retains k v ex (snd (set_entry ser w rs now k' d ttl ty s))"
proof -
  let ?e = "new_entry ser now k' d ttl ty"
  let ?s0 = "if size_meta (metadata ?e) < 1024 * 1024
             then enforceMemoryLimit (s\<lparr>memoryCache := AList.update k' ?e (memoryCache s)\<rparr>)
             else s"
  let ?s1 = "await_durable ?s0"
  have "retains k v ex ?s0"
    using assms by (auto intro!: retains_enforce retains_memory_set)
  then have r1: "retains k v ex ?s1" by (simp only: retains_counters)
  have g: "set_entry ser w rs now k' d ttl ty s =
    (case setInIndexedDB w ?e ?s1 of
       Inl err \<Rightarrow> (Inl err, ?s1)
     | Inr s2 \<Rightarrow> (Inr (), updateStats rs s2))"
    by (simp only: set_entry_def new_entry_def Let_def)
  show ?thesis
  proof (cases "setInIndexedDB w ?e ?s1")
    case (Inl err)
    with g r1 show ?thesis by simp
  next
    case (Inr s2)
    from retains_put [OF r1 _ Inr] assms(2) have "retains k v ex s2"
      by (auto simp: new_entry_def)
    with g Inr show ?thesis by (simp add: retains_counters)
  qed
qed

lemma retains_delete_other:
  assumes "retains k v ex s" "k' \<noteq> k"
  shows "retains k v ex (snd (delete_entry r rs k' s))"
  using assms
  by (auto simp: delete_entry_def deleteFromIndexedDB_def retains_def Let_def delete_conv'
      idb_get_delete split: option.splits idb_result.splits)

lemma retains_cleanup:
  assumes "retains k v ex s" "now < ex"
  shows "retains k v ex (snd (cleanup r rs now s))"
proof -
  let ?s1 = "s\<lparr>memoryCache := fold AList.delete
      (map fst (filter (\<lambda>(k, entry). expiration entry \<le> now) (memoryCache s))) (memoryCache s)\<rparr>"
  have r1: "retains k v ex ?s1"
    using assms(1) by (rule retains_weaken) (auto simp: map_of_fold_delete)
  show ?thesis
  proof (cases "db s")
    case None
    with assms show ?thesis by (simp add: retains_def)
  next
    case (Some store)
    with assms obtain e where e: "idb_get k store = Some e" "data e = v" "expiration e = ex"
      by (auto simp: retains_def split: option.splits)
    with assms(2) have "idb_get k (filter (\<lambda>e. \<not> expiration e \<le> now) store) = Some e"
      by (intro idb_get_sweep) auto
    with r1 Some e show ?thesis
      by (cases r) (auto simp: cleanup_def cleanupIndexedDB_def Let_def retains_def)
  qed
qed

lemma retains_perform:
  assumes "retains k v ex s" "\<not> affects k (operation_of c)" "time_of c < ex"
  shows "retains k v ex (perform ser c s)"
proof (cases c)
  case (Call now r1 r2 opn)
  with assms show ?thesis
    by (cases opn)
       (auto intro: retains_get retains_has retains_set_other retains_delete_other retains_cleanup)
qed

lemma retains_fold:
  assumes "retains k v ex s" "\<forall>c \<in> set cs. \<not> affects k (operation_of c) \<and> time_of c < ex"
  shows "retains k v ex (fold (perform ser) cs s)"
  using assms by (induction cs arbitrary: s) (auto intro: retains_perform)

lemma retains_get_value:
  assumes "retains k v ex s" "now < ex"
  shows "fst (get_entry onsuccess onsuccess now k s) = Inr v"
proof -
  from assms obtain store e where st: "db s = Some store" "idb_get k store = Some e"
    "data e = v" "expiration e = ex"
    by (auto simp: retains_def split: option.splits)
  show ?thesis
  proof (cases "map_of (memoryCache s) k")
    case None
    then have "case map_of (memoryCache s) k of None \<Rightarrow> True | Some e \<Rightarrow> expiration e \<le> now"
      by simp
    from get_entry_durable_hit [OF this st(1,2)] assms(2) st show ?thesis by simp
  next
    case (Some m)
    with assms have "data m = v" "now < expiration m" by (auto simp: retains_def)
    with get_entry_memory_hit [OF Some, of now onsuccess onsuccess] show ?thesis by simp
  qed
qed

lemma retains_after_set:
  assumes "db s = Some store"
    and "calculateSize ser v < 1024 * 1024 \<or> map_of (memoryCache s) k = None"
  shows "retains k v (now + ttl) (snd (set_entry ser onsuccess rs now k v ttl ty s))"
proof -
  let ?s1 = "snd (set_entry ser onsuccess rs now k v ttl ty s)"
  let ?e = "new_entry ser now k v ttl ty"
  have ok: "fst (set_entry ser onsuccess rs now k v ttl ty s) = Inr ()"
    using assms(1)
    by (cases "calculateSize ser v < 1024 * 1024")
       (auto simp: set_entry_def setInIndexedDB_def Let_def)
  from set_entry_durable [OF ok assms(1)]
  have d: "db ?s1 = Some (idb_put ?e store)" .
  have m: "map_of (memoryCache ?s1) k = None \<or> map_of (memoryCache ?s1) k = Some ?e"
  proof (cases "calculateSize ser v < 1024 * 1024")
    case True
    then show ?thesis by (rule set_entry_memory)
  next
    case False
    with assms(2) have "map_of (memoryCache s) k = None" by simp
    moreover from False assms(1) have "memoryCache ?s1 = memoryCache s"
      by (auto simp: set_entry_def setInIndexedDB_def Let_def)
    ultimately show ?thesis by simp
  qed
  from d m show ?thesis
    by (auto simp: retains_def idb_get_put new_entry_def split: option.splits)
qed

text \<open>
  C1, amended. Let the database be open and let \<open>set(k, v, ttl)\<close> at time \<open>now\<close> have its
  \<open>put\<close> succeed, where \<open>v\<close> is smaller than 1 MiB or the memory tier holds no entry
  for \<open>k\<close> when \<open>set\<close> is called. Then after any calls that are not \<open>set(k)\<close>,
  \<open>delete(k)\<close> or \<open>clear()\<close> and that are made before \<open>now + ttl\<close>, whatever their
  durable requests do, a \<open>get(k)\<close> before \<open>now + ttl\<close> whose own requests succeed returns
  \<open>v\<close>, whether or not the memory tier still holds \<open>k\<close>.
\<close>

theorem write_through:
  assumes "db s = Some store"
    and "calculateSize ser v < 1024 * 1024 \<or> map_of (memoryCache s) k = None"
    and "\<forall>c \<in> set calls. \<not> affects k (operation_of c) \<and> time_of c < now + ttl"
    and "now' < now + ttl"
  shows "fst (set_entry ser onsuccess rs now k v ttl ty s) = Inr () \<and>
         fst (get_entry onsuccess onsuccess now' k
               (fold (perform ser) calls (snd (set_entry ser onsuccess rs now k v ttl ty s)))) = Inr v"
proof -
  have "fst (set_entry ser onsuccess rs now k v ttl ty s) = Inr ()"
    using assms(1)
    by (cases "calculateSize ser v < 1024 * 1024")
       (auto simp: set_entry_def setInIndexedDB_def Let_def)
  moreover have "retains k v (now + ttl)
      (fold (perform ser) calls (snd (set_entry ser onsuccess rs now k v ttl ty s)))"
    using retains_after_set [OF assms(1,2)] assms(3) by (rule retains_fold)
  ultimately show ?thesis using retains_get_value assms(4) by blast
qed

theorem write_through_witness:
  "db example_open = Some [] \<and>
   calculateSize ser_len (Value 3) < 1024 * 1024 \<and>
   (1099::int) < 100 + 1000 \<and>
   fst (get_entry onsuccess onsuccess 1099 ''a''
         (fold (perform ser_len)
            [Call 150 onsuccess onsuccess (Get ''b''),
             Call 160 onerror onsuccess (Set ''c'' (Value 7) 10 ''analysis''),
             Call 300 onsuccess onsuccess Cleanup,
             Call 400 onsuccess onsuccess (Has ''a'')]
            example_cached)) = Inr (Value 3)"
proof -
  have d: "db example_open = Some []" by (simp add: example_open_eq)
  have z: "calculateSize ser_len (Value 3) < 1024 * 1024 \<or> map_of (memoryCache example_open) ''a'' = None"
    by simp
  have c: "\<forall>c \<in> set [Call 150 onsuccess onsuccess (Get ''b''),
             Call 160 onerror onsuccess (Set ''c'' (Value 7) 10 ''analysis''),
             Call 300 onsuccess onsuccess Cleanup,
             Call 400 onsuccess onsuccess (Has ''a'')].
           \<not> affects ''a'' (operation_of c) \<and> time_of c < 100 + 1000"
    by simp
  have l: "(1099::int) < 100 + 1000" by simp
  from write_through [OF d z c l, of onsuccess "''analysis''"] d show ?thesis
    by (simp add: example_cached_def)
qed

text \<open>
  C1 as stated fails when the database is not open: \<open>set\<close> resolves, yet a payload of
  2 MiB is written to neither tier, and the \<open>get\<close> that follows returns \<open>null\<close>.
\<close>

theorem write_through_counterexample:
  "fst (set_entry ser_len onsuccess onsuccess 100 ''big'' (Value 2097152) 1000 ''analysis''
          (initializeIndexedDB onerror onsuccess onsuccess [] 0 constructor)) = Inr () \<and>
   (200::int) < 100 + 1000 \<and>
   fst (get_entry onsuccess onsuccess 200 ''big''
          (snd (set_entry ser_len onsuccess onsuccess 100 ''big'' (Value 2097152) 1000 ''analysis''
             (initializeIndexedDB onerror onsuccess onsuccess [] 0 constructor)))) = Inr Null"
  by (simp add: initializeIndexedDB_def constructor_def set_entry_def setInIndexedDB_def
      get_entry_def getFromIndexedDB_def Let_def updateStats_def calculateMemoryUsage_def)

text \<open>
  The hypothesis on the size is needed: a \<open>set\<close> of 1 MiB or more leaves an older
  memory-resident entry of the same key in place, and \<open>get\<close> then returns the old payload.
\<close>

lemma stale_memory_entry_example:
  "fst (get_entry onsuccess onsuccess 200 ''a''
          (snd (set_entry ser_len onsuccess onsuccess 150 ''a'' (Value 2097152) 1000 ''analysis''
             example_cached))) = Inr (Value 3)"
  by (simp add: example_cached_eq set_entry_def setInIndexedDB_def get_entry_def Let_def
      updateStats_def)
     (simp add: example_entry_def)

subsection \<open>Eviction\<close>

lemma insort_key_append_last:
  "f x \<le> f y \<Longrightarrow> insort_key f x (zs @ [y]) = insort_key f x zs @ [y]"
  by (induction zs) auto

lemma foldr_insort_key_last:
  "\<forall>x \<in> set xs. f x \<le> f y \<Longrightarrow>
   foldr (insort_key f) xs (zs @ [y]) = foldr (insort_key f) xs zs @ [y]"
  by (induction xs) (auto simp: insort_key_append_last)

lemma sort_key_append_last:
  "\<forall>x \<in> set xs. f x \<le> f y \<Longrightarrow> sort_key f (xs @ [y]) = sort_key f xs @ [y]"
  using foldr_insort_key_last [of xs f y "[]"] by (simp add: sort_key_def)

lemma update_append_new:
  "map_of mem k = None \<Longrightarrow> AList.update k e mem = mem @ [(k, e)]"
  by (induction mem) (auto split: if_splits)

lemma delete_filter_keys:
  "filter (\<lambda>p. fst p \<notin> D) (AList.delete k mem) = filter (\<lambda>p. fst p \<notin> insert k D) mem"
  by (induction mem) (auto simp: AList.delete_eq)

lemma enforceMemoryLimit_loop_prefix:
  "\<exists>n \<le> length es.
     enforceMemoryLimit_loop m es mem = filter (\<lambda>p. fst p \<notin> set (take n (map fst es))) mem \<and>
     (\<forall>j < n. m < calculateMemoryUsage (filter (\<lambda>p. fst p \<notin> set (take j (map fst es))) mem)) \<and>
     (n < length es \<longrightarrow> calculateMemoryUsage (enforceMemoryLimit_loop m es mem) \<le> m)"
proof (induction es arbitrary: mem)
  case Nil
  then show ?case by simp
next
  case (Cons e es)
  show ?case
  proof (cases "m < calculateMemoryUsage mem")
    case False
    then show ?thesis by (intro exI [of _ 0]) simp
  next
    case True
    from Cons.IH [of "AList.delete (fst e) mem"] obtain n where n: "n \<le> length es"
      "enforceMemoryLimit_loop m es (AList.delete (fst e) mem) =
         filter (\<lambda>p. fst p \<notin> set (take n (map fst es))) (AList.delete (fst e) mem)"
      "\<forall>j < n. m < calculateMemoryUsage
         (filter (\<lambda>p. fst p \<notin> set (take j (map fst es))) (AList.delete (fst e) mem))"
      "n < length es \<longrightarrow>
         calculateMemoryUsage (enforceMemoryLimit_loop m es (AList.delete (fst e) mem)) \<le> m"
      by blast
    have "\<forall>j < Suc n. m < calculateMemoryUsage
        (filter (\<lambda>p. fst p \<notin> set (take j (map fst (e # es)))) mem)"
    proof (intro allI impI)
      fix j assume "j < Suc n"
      show "m < calculateMemoryUsage (filter (\<lambda>p. fst p \<notin> set (take j (map fst (e # es)))) mem)"
      proof (cases j)
        case 0
        with True show ?thesis by simp
      next
        case (Suc j')
        with \<open>j < Suc n\<close> n(3) show ?thesis by (simp add: delete_filter_keys)
      qed
    qed
    with True n show ?thesis
      by (intro exI [of _ "Suc n"]) (simp add: delete_filter_keys)
  qed
qed

lemma calculateMemoryUsage_single [simp]:
  "calculateMemoryUsage [(k, e)] = size_meta (metadata e)"
  by (simp add: calculateMemoryUsage_def)

lemma map_of_filter_keys:
  "k \<notin> D \<Longrightarrow> map_of (filter (\<lambda>p. fst p \<notin> D) mem) k = map_of mem k"
  by (induction mem) auto

lemma filter_keys_all:
  "fst ` set mem \<subseteq> D \<Longrightarrow> filter (\<lambda>p. fst p \<notin> D) mem = []"
  by (induction mem) auto

lemma enforceMemoryLimit_keeps_newest:
  assumes new: "map_of (memoryCache s) k = None"
    and recent: "\<forall>p \<in> set (memoryCache s). lastAccessed (snd p) \<le> lastAccessed e"
    and small: "size_meta (metadata e) \<le> MAX_MEMORY_CACHE_SIZE * 1024 * 1024"
  shows "map_of (memoryCache (enforceMemoryLimit
           (s\<lparr>memoryCache := AList.update k e (memoryCache s)\<rparr>))) k = Some e"
proof -
  let ?mem = "memoryCache s"
  let ?M = "?mem @ [(k, e)]"
  let ?m = "MAX_MEMORY_CACHE_SIZE * 1024 * 1024"
  let ?f = "\<lambda>p::string \<times> 'a CacheEntry. lastAccessed (snd p)"
  let ?es = "sort_key ?f ?mem @ [(k, e)]"
  have upd: "AList.update k e ?mem = ?M" using new by (rule update_append_new)
  have srt: "sort_key ?f ?M = ?es"
    using recent by (intro sort_key_append_last) auto
  have knew: "k \<notin> fst ` set ?mem" using new by (simp add: map_of_eq_None_iff)
  have look: "map_of ?M k = Some e" using new by (simp add: map_add_def)
  show ?thesis
  proof (cases "?m < calculateMemoryUsage ?M")
    case False
    with look show ?thesis by (simp add: enforceMemoryLimit_def upd Let_def)
  next
    case True
    then have res: "memoryCache (enforceMemoryLimit (s\<lparr>memoryCache := AList.update k e ?mem\<rparr>)) =
      enforceMemoryLimit_loop ?m ?es ?M"
      by (simp add: enforceMemoryLimit_def upd srt Let_def)
    from enforceMemoryLimit_loop_prefix [of ?es ?m ?M] obtain n where n: "n \<le> length ?es"
      "enforceMemoryLimit_loop ?m ?es ?M = filter (\<lambda>p. fst p \<notin> set (take n (map fst ?es))) ?M"
      "\<forall>j < n. ?m < calculateMemoryUsage (filter (\<lambda>p. fst p \<notin> set (take j (map fst ?es))) ?M)"
      by blast
    have "n \<le> length ?mem"
    proof (rule ccontr)
      assume "\<not> n \<le> length ?mem"
      then have "length ?mem < n" by simp
      with n(3) have big: "?m < calculateMemoryUsage
          (filter (\<lambda>p. fst p \<notin> set (take (length ?mem) (map fst ?es))) ?M)"
        by blast
      have tk: "set (take (length ?mem) (map fst ?es)) = fst ` set ?mem"
        by simp
      have "filter (\<lambda>p. fst p \<notin> fst ` set ?mem) ?M = [(k, e)]"
        using knew by (simp add: filter_keys_all)
      with big tk small show False by simp
    qed
    then have "set (take n (map fst ?es)) \<subseteq> fst ` set ?mem"
      by (auto dest!: in_set_takeD)
    with knew have "k \<notin> set (take n (map fst ?es))" by blast
    from map_of_filter_keys [OF this, of ?M] look n(2) res show ?thesis by simp
  qed
qed

lemma enforceMemoryLimit_bound:
  "calculateMemoryUsage (memoryCache (enforceMemoryLimit s)) \<le> MAX_MEMORY_CACHE_SIZE * 1024 * 1024"
proof (cases "MAX_MEMORY_CACHE_SIZE * 1024 * 1024 < calculateMemoryUsage (memoryCache s)")
  case False
  then show ?thesis by (simp add: enforceMemoryLimit_def Let_def)
next
  case True
  let ?m = "MAX_MEMORY_CACHE_SIZE * 1024 * 1024"
  let ?es = "sort_key (\<lambda>p. lastAccessed (snd p)) (memoryCache s)"
  from enforceMemoryLimit_loop_prefix [of ?es ?m "memoryCache s"] obtain n where n: "n \<le> length ?es"
    "enforceMemoryLimit_loop ?m ?es (memoryCache s) =
       filter (\<lambda>p. fst p \<notin> set (take n (map fst ?es))) (memoryCache s)"
    "n < length ?es \<longrightarrow>
       calculateMemoryUsage (enforceMemoryLimit_loop ?m ?es (memoryCache s)) \<le> ?m"
    by blast
  have "calculateMemoryUsage (enforceMemoryLimit_loop ?m ?es (memoryCache s)) \<le> ?m"
  proof (cases "n < length ?es")
    case True
    with n(3) show ?thesis by simp
  next
    case False
    with n(1) have "take n (map fst ?es) = map fst ?es" by simp
    then have "enforceMemoryLimit_loop ?m ?es (memoryCache s) = []"
      using n(2) by (simp add: filter_keys_all)
    then show ?thesis by (simp add: calculateMemoryUsage_def)
  qed
  with True show ?thesis by (simp add: enforceMemoryLimit_def Let_def)
qed

subsection \<open>The order of eviction\<close>

text \<open>
  C4 as stated fails on ties. \<open>'a'\<close> and \<open>'b'\<close> were last accessed at the same time and
  \<open>'b'\<close> has the lower \<open>accessCount\<close>; when \<open>set('c')\<close> pushes the memory tier over the
  ceiling, the code evicts \<open>'a'\<close>, the one inserted first, and keeps \<open>'b'\<close>.
\<close>

theorem eviction_tie_counterexample:
  "map_of (memoryCache example_restart) ''a'' = Some example_a \<and>
   map_of (memoryCache example_restart) ''b'' = Some example_b \<and>
   lastAccessed example_a = lastAccessed example_b \<and>
   accessCount example_b < accessCount example_a \<and>
   map_of (memoryCache (snd (set_entry ser_len onsuccess onsuccess 200 ''c'' (Value 3) 1000
      ''analysis'' example_restart))) ''a'' = None \<and>
   map_of (memoryCache (snd (set_entry ser_len onsuccess onsuccess 200 ''c'' (Value 3) 1000
      ''analysis'' example_restart))) ''b'' = Some example_b"
  using example_pressure_memory
  by (simp add: example_restart_tiers example_pressure_def)
     (simp add: example_a_def example_b_def)

text \<open>
  C4, amended. \<open>enforceMemoryLimit\<close> removes the first \<open>n\<close> keys of the memory map in
  the order of the stable ascending sort by \<open>lastAccessed\<close> (entries of equal
  \<open>lastAccessed\<close> stay in insertion order; \<open>accessCount\<close> plays no part), where each of
  these removals found the recomputed size above the ceiling, and it ends at or below the
  ceiling. The durable tier is not touched.
\<close>

theorem eviction_order:
  "\<exists>n \<le> length (memoryCache s).
     memoryCache (enforceMemoryLimit s) =
       filter (\<lambda>p. fst p \<notin>
           set (take n (map fst (sort_key (\<lambda>p. lastAccessed (snd p)) (memoryCache s)))))
         (memoryCache s) \<and>
     (\<forall>j < n. MAX_MEMORY_CACHE_SIZE * 1024 * 1024 <
        calculateMemoryUsage
          (filter (\<lambda>p. fst p \<notin>
              set (take j (map fst (sort_key (\<lambda>p. lastAccessed (snd p)) (memoryCache s)))))
            (memoryCache s))) \<and>
     calculateMemoryUsage (memoryCache (enforceMemoryLimit s))
       \<le> MAX_MEMORY_CACHE_SIZE * 1024 * 1024 \<and>
     sorted (map (\<lambda>p. lastAccessed (snd p))
       (sort_key (\<lambda>p. lastAccessed (snd p)) (memoryCache s))) \<and>
     (\<forall>t. filter (\<lambda>p. lastAccessed (snd p) = t)
            (sort_key (\<lambda>p. lastAccessed (snd p)) (memoryCache s)) =
          filter (\<lambda>p. lastAccessed (snd p) = t) (memoryCache s)) \<and>
     db (enforceMemoryLimit s) = db s"
proof -
  let ?m = "MAX_MEMORY_CACHE_SIZE * 1024 * 1024"
  let ?es = "sort_key (\<lambda>p. lastAccessed (snd p)) (memoryCache s)"
  have order: "sorted (map (\<lambda>p. lastAccessed (snd p)) ?es) \<and>
     (\<forall>t. filter (\<lambda>p. lastAccessed (snd p) = t) ?es =
          filter (\<lambda>p. lastAccessed (snd p) = t) (memoryCache s))"
    by (simp add: sorted_sort_key sort_key_stable)
  have "\<exists>n \<le> length (memoryCache s).
     memoryCache (enforceMemoryLimit s) =
       filter (\<lambda>p. fst p \<notin> set (take n (map fst ?es))) (memoryCache s) \<and>
     (\<forall>j < n. ?m < calculateMemoryUsage
          (filter (\<lambda>p. fst p \<notin> set (take j (map fst ?es))) (memoryCache s)))"
  proof (cases "?m < calculateMemoryUsage (memoryCache s)")
    case False
    then show ?thesis
      by (intro exI [of _ 0]) (simp add: enforceMemoryLimit_def Let_def)
  next
    case True
    from enforceMemoryLimit_loop_prefix [of ?es ?m "memoryCache s"] obtain n where
      "n \<le> length ?es"
      "enforceMemoryLimit_loop ?m ?es (memoryCache s) =
         filter (\<lambda>p. fst p \<notin> set (take n (map fst ?es))) (memoryCache s)"
      "\<forall>j < n. ?m < calculateMemoryUsage
          (filter (\<lambda>p. fst p \<notin> set (take j (map fst ?es))) (memoryCache s))"
      by blast
    with True show ?thesis
      by (intro exI [of _ n]) (simp add: enforceMemoryLimit_def Let_def)
  qed
  with order enforceMemoryLimit_bound [of s] show ?thesis by auto
qed

theorem eviction_order_witness:
  "memoryCache example_restart = [(''a'', example_a), (''b'', example_b)] \<and>
   memoryCache (enforceMemoryLimit example_restart) = [(''b'', example_b)] \<and>
   calculateMemoryUsage (memoryCache (enforceMemoryLimit example_restart))
     \<le> MAX_MEMORY_CACHE_SIZE * 1024 * 1024 \<and>
   db (enforceMemoryLimit example_restart) = Some [example_a, example_b]"
proof -
  have "memoryCache (enforceMemoryLimit example_restart) = [(''b'', example_b)]"
    by (simp add: example_restart_tiers enforceMemoryLimit_def calculateMemoryUsage_def
        MAX_MEMORY_CACHE_SIZE_def Let_def AList.delete_eq)
       (simp add: example_a_def example_b_def)
  moreover from eviction_order [of example_restart]
  have "calculateMemoryUsage (memoryCache (enforceMemoryLimit example_restart))
     \<le> MAX_MEMORY_CACHE_SIZE * 1024 * 1024 \<and>
     db (enforceMemoryLimit example_restart) = db example_restart"
    by blast
  ultimately show ?thesis by (simp add: example_restart_tiers)
qed

subsection \<open>Promotion\<close>

lemma enforceMemoryLimit_memory_cong:
  "memoryCache s = memoryCache t \<Longrightarrow>
   memoryCache (enforceMemoryLimit s) = memoryCache (enforceMemoryLimit t)"
  by (simp add: enforceMemoryLimit_def Let_def)

lemma get_entry_durable_step:
  assumes "map_of (memoryCache s) k = None" "db s = Some store" "idb_get k store = Some e"
    "now < expiration e"
  shows "fst (get_entry onsuccess onsuccess now k s) = Inr (data e) \<and>
    db (snd (get_entry onsuccess onsuccess now k s)) =
      Some (idb_put (e\<lparr>accessCount := accessCount e + 1, lastAccessed := now\<rparr>) store) \<and>
    memoryCache (snd (get_entry onsuccess onsuccess now k s)) =
      (if accessCount e + 1 > 2 \<and> size_meta (metadata e) < 1024 * 1024
       then memoryCache (enforceMemoryLimit
              (s\<lparr>memoryCache :=
                   AList.update k (e\<lparr>accessCount := accessCount e + 1, lastAccessed := now\<rparr>)
                     (memoryCache s)\<rparr>))
       else memoryCache s)"
  using assms
  by (auto simp: get_entry_def getFromIndexedDB_def setInIndexedDB_def Let_def
      intro: enforceMemoryLimit_memory_cong)

lemma get_entry_large_memory:
  assumes "map_of (memoryCache s) k = None"
    and "\<forall>store e. db s = Some store \<longrightarrow> idb_get k store = Some e \<longrightarrow>
           1024 * 1024 \<le> size_meta (metadata e)"
  shows "memoryCache (snd (get_entry rd w now k s)) = memoryCache s \<and>
         (\<forall>store e. db (snd (get_entry rd w now k s)) = Some store \<longrightarrow> idb_get k store = Some e \<longrightarrow>
           1024 * 1024 \<le> size_meta (metadata e))"
  using assms
  by (auto simp: get_entry_def getFromIndexedDB_def setInIndexedDB_def Let_def idb_get_put
      split: option.splits idb_result.splits if_splits)

lemma gets_large_memory:
  assumes "\<forall>c \<in> set calls. operation_of c = Get k"
    and "map_of (memoryCache s) k = None"
    and "\<forall>store e. db s = Some store \<longrightarrow> idb_get k store = Some e \<longrightarrow>
           1024 * 1024 \<le> size_meta (metadata e)"
  shows "memoryCache (fold (perform ser) calls s) = memoryCache s"
  using assms
proof (induction calls arbitrary: s)
  case Nil
  then show ?case by simp
next
  case (Cons c calls)
  then obtain now r1 r2 where c: "c = Call now r1 r2 (Get k)"
    by (cases c) auto
  from get_entry_large_memory [OF Cons.prems(2,3), of r1 r2 now]
  have m: "memoryCache (snd (get_entry r1 r2 now k s)) = memoryCache s"
    and d: "\<forall>store e. db (snd (get_entry r1 r2 now k s)) = Some store \<longrightarrow>
       idb_get k store = Some e \<longrightarrow> 1024 * 1024 \<le> size_meta (metadata e)"
    by blast+
  from Cons.prems(1) have rest: "\<forall>c \<in> set calls. operation_of c = Get k" by simp
  from Cons.prems(2) m have "map_of (memoryCache (snd (get_entry r1 r2 now k s))) k = None"
    by simp
  from Cons.IH [OF rest this d] m show ?case by (simp add: c)
qed

text \<open>
  C5. Let \<open>k\<close> be held by the durable tier only, by an entry \<open>e\<close> that has not expired
  at the times of the calls. If \<open>e\<close> is smaller than 1 MiB and has not been read yet
  (\<open>accessCount = 0\<close>, as \<open>set\<close> stores it), then the first and the second \<open>get(k)\<close> return
  the payload and leave \<open>k\<close> out of the memory tier, and the third \<open>get(k)\<close> returns the
  payload and writes the entry, with \<open>accessCount = 3\<close>, into the memory map before
  \<open>enforceMemoryLimit\<close> runs; the entry is then memory-resident whenever no resident entry
  was accessed later than this call. If \<open>e\<close> is 1 MiB or larger, no sequence of \<open>get(k)\<close>
  calls, whatever their durable requests do, changes the memory tier.
\<close>

theorem promotion_threshold:
  assumes absent: "map_of (memoryCache s) k = None"
    and durable: "db s = Some store" "idb_get k store = Some e"
    and live: "t1 < expiration e" "t2 < expiration e" "t3 < expiration e"
  shows "(size_meta (metadata e) < 1024 * 1024 \<and> accessCount e = 0 \<longrightarrow>
           fst (get_entry onsuccess onsuccess t1 k s) = Inr (data e) \<and>
           map_of (memoryCache (snd (get_entry onsuccess onsuccess t1 k s))) k = None \<and>
           fst (get_entry onsuccess onsuccess t2 k (snd (get_entry onsuccess onsuccess t1 k s)))
             = Inr (data e) \<and>
           map_of (memoryCache (snd (get_entry onsuccess onsuccess t2 k
             (snd (get_entry onsuccess onsuccess t1 k s))))) k = None \<and>
           fst (get_entry onsuccess onsuccess t3 k (snd (get_entry onsuccess onsuccess t2 k
             (snd (get_entry onsuccess onsuccess t1 k s))))) = Inr (data e) \<and>
           memoryCache (snd (get_entry onsuccess onsuccess t3 k (snd (get_entry onsuccess onsuccess t2 k
             (snd (get_entry onsuccess onsuccess t1 k s)))))) =
             memoryCache (enforceMemoryLimit
               (s\<lparr>memoryCache :=
                    AList.update k (e\<lparr>accessCount := 3, lastAccessed := t3\<rparr>) (memoryCache s)\<rparr>)) \<and>
           ((\<forall>p \<in> set (memoryCache s). lastAccessed (snd p) \<le> t3) \<longrightarrow>
              map_of (memoryCache (snd (get_entry onsuccess onsuccess t3 k
                (snd (get_entry onsuccess onsuccess t2 k
                  (snd (get_entry onsuccess onsuccess t1 k s))))))) k =
              Some (e\<lparr>accessCount := 3, lastAccessed := t3\<rparr>))) \<and>
         (1024 * 1024 \<le> size_meta (metadata e) \<and> (\<forall>c \<in> set calls. operation_of c = Get k) \<longrightarrow>
            memoryCache (fold (perform ser) calls s) = memoryCache s)"
proof (intro conjI impI)
  assume "1024 * 1024 \<le> size_meta (metadata e) \<and> (\<forall>c \<in> set calls. operation_of c = Get k)"
  then show "memoryCache (fold (perform ser) calls s) = memoryCache s"
    using absent durable by (intro gets_large_memory) auto
next
  assume small: "size_meta (metadata e) < 1024 * 1024 \<and> accessCount e = 0"
  let ?e1 = "e\<lparr>accessCount := 1, lastAccessed := t1\<rparr>"
  let ?e2 = "e\<lparr>accessCount := 2, lastAccessed := t2\<rparr>"
  let ?e3 = "e\<lparr>accessCount := 3, lastAccessed := t3\<rparr>"
  let ?s1 = "snd (get_entry onsuccess onsuccess t1 k s)"
  let ?s2 = "snd (get_entry onsuccess onsuccess t2 k ?s1)"
  let ?s3 = "snd (get_entry onsuccess onsuccess t3 k ?s2)"
  let ?p = "enforceMemoryLimit (s\<lparr>memoryCache := AList.update k ?e3 (memoryCache s)\<rparr>)"
  have ke: "key e = k" using durable(2) by (rule idb_get_key)
  have g1: "fst (get_entry onsuccess onsuccess t1 k s) = Inr (data e)"
    and db1: "db ?s1 = Some (idb_put ?e1 store)"
    and m1: "memoryCache ?s1 = memoryCache s"
    using get_entry_durable_step [OF absent durable live(1)] small by simp_all
  have d1: "idb_get k (idb_put ?e1 store) = Some ?e1"
    using ke by (simp add: idb_get_put)
  have a1: "map_of (memoryCache ?s1) k = None" using absent m1 by simp
  have l1: "t2 < expiration ?e1" using live(2) by simp
  have g2: "fst (get_entry onsuccess onsuccess t2 k ?s1) = Inr (data e)"
    and db2: "db ?s2 = Some (idb_put ?e2 (idb_put ?e1 store))"
    and m2: "memoryCache ?s2 = memoryCache s"
    using get_entry_durable_step [OF a1 db1 d1 l1] small m1
    by (simp_all add: numeral_2_eq_2)
  have d2: "idb_get k (idb_put ?e2 (idb_put ?e1 store)) = Some ?e2"
    using ke by (simp add: idb_get_put)
  have a2: "map_of (memoryCache ?s2) k = None" using absent m2 by simp
  have l2: "t3 < expiration ?e2" using live(3) by simp
  have c: "memoryCache (enforceMemoryLimit
      (?s2\<lparr>memoryCache := AList.update k ?e3 (memoryCache ?s2)\<rparr>)) = memoryCache ?p"
    by (rule enforceMemoryLimit_memory_cong) (simp add: m2)
  have g3: "fst (get_entry onsuccess onsuccess t3 k ?s2) = Inr (data e)"
    and m3: "memoryCache ?s3 = memoryCache ?p"
    using get_entry_durable_step [OF a2 db2 d2 l2] small c
    by (simp_all add: numeral_2_eq_2 numeral_3_eq_3)
  have keep: "map_of (memoryCache ?p) k = Some ?e3"
    if "\<forall>p \<in> set (memoryCache s). lastAccessed (snd p) \<le> t3"
    using absent that small
    by (intro enforceMemoryLimit_keeps_newest) (auto simp: MAX_MEMORY_CACHE_SIZE_def)
  show "fst (get_entry onsuccess onsuccess t1 k s) = Inr (data e)"
    by (rule g1)
  show "map_of (memoryCache ?s1) k = None"
    by (rule a1)
  show "fst (get_entry onsuccess onsuccess t2 k ?s1) = Inr (data e)"
    by (rule g2)
  show "map_of (memoryCache ?s2) k = None"
    by (rule a2)
  show "fst (get_entry onsuccess onsuccess t3 k ?s2) = Inr (data e)"
    by (rule g3)
  show "memoryCache ?s3 = memoryCache ?p"
    by (rule m3)
  show "map_of (memoryCache ?s3) k = Some ?e3"
    if "\<forall>p \<in> set (memoryCache s). lastAccessed (snd p) \<le> t3"
    using keep [OF that] by (simp only: m3)
qed

theorem promotion_threshold_witness:
  "map_of (memoryCache example_durable_only) ''a'' = None \<and>
   db example_durable_only = Some [example_entry] \<and>
   idb_get ''a'' [example_entry] = Some example_entry \<and>
   size_meta (metadata example_entry) < 1024 * 1024 \<and> accessCount example_entry = 0 \<and>
   map_of (memoryCache (snd (get_entry onsuccess onsuccess 200 ''a'' example_durable_only))) ''a''
     = None \<and>
   map_of (memoryCache (snd (get_entry onsuccess onsuccess 300 ''a''
     (snd (get_entry onsuccess onsuccess 200 ''a'' example_durable_only))))) ''a'' = None \<and>
   map_of (memoryCache (snd (get_entry onsuccess onsuccess 400 ''a''
     (snd (get_entry onsuccess onsuccess 300 ''a''
       (snd (get_entry onsuccess onsuccess 200 ''a'' example_durable_only))))))) ''a''
     = Some (example_entry\<lparr>accessCount := 3, lastAccessed := 400\<rparr>) \<and>
   map_of (memoryCache example_large) ''big'' = None \<and>
   1024 * 1024 \<le> size_meta (metadata (new_entry ser_len 100 ''big'' (Value 2097152) 1000 ''analysis'')) \<and>
   memoryCache (fold (perform ser_len)
     [Call 200 onsuccess onsuccess (Get ''big''), Call 300 onsuccess onsuccess (Get ''big''),
      Call 400 onsuccess onsuccess (Get ''big'')] example_large) = []"
proof -
  have a: "map_of (memoryCache example_durable_only) ''a'' = None"
    and d: "db example_durable_only = Some [example_entry]"
    by (simp_all add: example_durable_only_eq)
  have i: "idb_get ''a'' [example_entry] = Some example_entry"
    by (simp add: idb_get_def example_entry_def)
  have l: "200 < expiration example_entry" "300 < expiration example_entry"
    "400 < expiration example_entry"
    by (simp_all add: example_entry_def)
  have z: "size_meta (metadata example_entry) < 1024 * 1024 \<and> accessCount example_entry = 0"
    by (simp add: example_entry_def)
  have r: "\<forall>p \<in> set (memoryCache example_durable_only). lastAccessed (snd p) \<le> 400"
    by (simp add: example_durable_only_eq)
  let ?b = "new_entry ser_len 100 ''big'' (Value 2097152) 1000 ''analysis''"
  have a': "map_of (memoryCache example_large) ''big'' = None"
    and d': "db example_large = Some [?b]"
    by (simp_all add: example_large_eq)
  have i': "idb_get ''big'' [?b] = Some ?b"
    by (simp add: idb_get_def new_entry_def)
  have l': "200 < expiration ?b" by (simp add: new_entry_def)
  have z': "1024 * 1024 \<le> size_meta (metadata ?b)" by (simp add: new_entry_def)
  have c': "\<forall>c \<in> set [Call 200 onsuccess onsuccess (Get ''big''),
      Call 300 onsuccess onsuccess (Get ''big''), Call 400 onsuccess onsuccess (Get ''big'')].
      operation_of c = Get ''big''"
    by simp
  have p1: "map_of (memoryCache (snd (get_entry onsuccess onsuccess 200 ''a'' example_durable_only))) ''a''
     = None \<and>
   map_of (memoryCache (snd (get_entry onsuccess onsuccess 300 ''a''
     (snd (get_entry onsuccess onsuccess 200 ''a'' example_durable_only))))) ''a'' = None \<and>
   map_of (memoryCache (snd (get_entry onsuccess onsuccess 400 ''a''
     (snd (get_entry onsuccess onsuccess 300 ''a''
       (snd (get_entry onsuccess onsuccess 200 ''a'' example_durable_only))))))) ''a''
     = Some (example_entry\<lparr>accessCount := 3, lastAccessed := 400\<rparr>)"
    using promotion_threshold [OF a d i l, of "[]" ser_len] z r by blast
  have p2: "memoryCache (fold (perform ser_len)
     [Call 200 onsuccess onsuccess (Get ''big''), Call 300 onsuccess onsuccess (Get ''big''),
      Call 400 onsuccess onsuccess (Get ''big'')] example_large) = memoryCache example_large"
    using promotion_threshold [OF a' d' i' l' l' l', of
      "[Call 200 onsuccess onsuccess (Get ''big''), Call 300 onsuccess onsuccess (Get ''big''),
        Call 400 onsuccess onsuccess (Get ''big'')]" ser_len] z' c'
    by blast
  have m: "memoryCache example_large = []" by (simp add: example_large_eq)
  show ?thesis
    using p1 p2 a d i a' z z' unfolding m by (intro conjI) blast+
qed

subsection \<open>The ceiling of the memory tier\<close>

text \<open>
  C3. The ceiling does not hold in every state the service reaches. A session stores
  two payloads of 30 MiB; the start-up of the next session copies both records into the
  memory map without a size check, and after \<open>get('a')\<close> has completed the memory tier
  holds 60 MiB.
\<close>

theorem startup_exceeds_ceiling:
  "db example_session = Some [example_a, example_b] \<and>
   example_restart =
     initializeIndexedDB onsuccess onsuccess onsuccess [example_a, example_b] 150 constructor \<and>
   MAX_MEMORY_CACHE_SIZE * 1024 * 1024 < calculateMemoryUsage (memoryCache example_restart) \<and>
   fst (get_entry onsuccess onsuccess 200 ''a'' example_restart) = Inr (Value 31457280) \<and>
   calculateMemoryUsage (memoryCache (snd (get_entry onsuccess onsuccess 200 ''a'' example_restart)))
     = 62914560 \<and>
   MAX_MEMORY_CACHE_SIZE * 1024 * 1024 <
     calculateMemoryUsage (memoryCache (snd (get_entry onsuccess onsuccess 200 ''a'' example_restart)))"
proof -
  have "fst (get_entry onsuccess onsuccess 200 ''a'' example_restart) = Inr (Value 31457280) \<and>
    calculateMemoryUsage (memoryCache (snd (get_entry onsuccess onsuccess 200 ''a'' example_restart)))
     = 62914560"
    by (simp add: example_restart_tiers get_entry_def calculateMemoryUsage_def)
       (simp add: example_a_def example_b_def)
  moreover have "calculateMemoryUsage (memoryCache example_restart) = 62914560"
    by (simp add: example_restart_tiers calculateMemoryUsage_def)
       (simp add: example_a_def example_b_def)
  ultimately show ?thesis
    by (simp add: example_session_store MAX_MEMORY_CACHE_SIZE_def example_restart_def)
qed

text \<open>
  The public operations themselves keep the memory tier within the ceiling: each
  preserves it, so it holds after every sequence of calls on a service whose memory tier
  was not seeded.
\<close>

lemma foldl_plus_sum_list:
  "foldl (\<lambda>total x. total + f x) a xs = a + sum_list (map f xs)"
  for a :: nat
  by (induction xs arbitrary: a) auto

lemma calculateMemoryUsage_sum:
  "calculateMemoryUsage mem = sum_list (map (\<lambda>p. size_meta (metadata (snd p))) mem)"
  by (simp add: calculateMemoryUsage_def foldl_plus_sum_list foldl_map comp_def)

lemma calculateMemoryUsage_delete:
  "calculateMemoryUsage (AList.delete k mem) \<le> calculateMemoryUsage mem"
  by (simp add: calculateMemoryUsage_sum AList.delete_eq sum_list_filter_le_nat)

lemma calculateMemoryUsage_fold_delete:
  "calculateMemoryUsage (fold AList.delete ks mem) \<le> calculateMemoryUsage mem"
proof (induction ks arbitrary: mem)
  case Nil
  then show ?case by simp
next
  case (Cons k ks)
  from Cons.IH [of "AList.delete k mem"] calculateMemoryUsage_delete [of k mem]
  show ?case by simp
qed

lemma calculateMemoryUsage_update_same:
  "map_of mem k = Some e \<Longrightarrow> size_meta (metadata e') = size_meta (metadata e) \<Longrightarrow>
   calculateMemoryUsage (AList.update k e' mem) = calculateMemoryUsage mem"
  by (induction mem) (auto simp: calculateMemoryUsage_sum split: if_splits)

lemma within_limit_enforce [simp]: "within_limit (enforceMemoryLimit s)"
  using enforceMemoryLimit_bound [of s] by (simp add: within_limit_def)

lemma within_limit_fields [simp]:
  "within_limit (s\<lparr>db := d\<rparr>) = within_limit s"
  "within_limit (s\<lparr>hitCount := h\<rparr>) = within_limit s"
  "within_limit (s\<lparr>missCount := m\<rparr>) = within_limit s"
  "within_limit (updateStats r s) = within_limit s"
  "within_limit (await_durable s) = within_limit s"
  by (simp_all add: within_limit_def)

lemma within_limit_get:
  assumes "within_limit s"
  shows "within_limit (snd (get_entry rd w now k s))"
proof (cases "map_of (memoryCache s) k")
  case None
  with assms show ?thesis
    by (auto simp: get_entry_def getFromIndexedDB_def setInIndexedDB_def Let_def
        split: option.splits sum.splits idb_result.splits)
next
  case (Some e)
  have "within_limit (s\<lparr>memoryCache :=
      AList.update k (e\<lparr>accessCount := accessCount e + 1, lastAccessed := now\<rparr>) (memoryCache s)\<rparr>)"
    using assms calculateMemoryUsage_update_same [OF Some,
        of "e\<lparr>accessCount := accessCount e + 1, lastAccessed := now\<rparr>"]
    by (simp add: within_limit_def)
  with assms Some show ?thesis
    by (auto simp: get_entry_def getFromIndexedDB_def setInIndexedDB_def Let_def
        split: option.splits sum.splits idb_result.splits)
qed

lemma within_limit_set:
  "within_limit s \<Longrightarrow> within_limit (snd (set_entry ser w rs now k d ttl ty s))"
  by (auto simp: set_entry_def setInIndexedDB_def Let_def
      split: option.splits sum.splits idb_result.splits)

lemma within_limit_delete:
  "within_limit s \<Longrightarrow> within_limit (snd (delete_entry r rs k s))"
  using calculateMemoryUsage_delete [of k "memoryCache s"]
  by (auto simp: delete_entry_def deleteFromIndexedDB_def Let_def within_limit_def
      split: option.splits sum.splits idb_result.splits)

lemma within_limit_clear: "within_limit (snd (clear r rs s))"
  by (auto simp: clear_def clearIndexedDB_def Let_def within_limit_def calculateMemoryUsage_def
      split: option.splits sum.splits idb_result.splits)

lemma within_limit_cleanup:
  "within_limit s \<Longrightarrow> within_limit (snd (cleanup r rs now s))"
  using calculateMemoryUsage_fold_delete [of
      "map fst (filter (\<lambda>(k, entry). expiration entry \<le> now) (memoryCache s))" "memoryCache s"]
  by (auto simp: cleanup_def cleanupIndexedDB_def Let_def within_limit_def
      split: option.splits sum.splits idb_result.splits)

lemma within_limit_has:
  "within_limit s \<Longrightarrow> within_limit (snd (has rd w now k s))"
  using within_limit_get [of s rd w now k]
  by (cases "get_entry rd w now k s") (auto simp: has_def split: sum.splits)

lemma memory_limit_preserved:
  assumes "within_limit s"
  shows "within_limit (perform ser c s)"
proof (cases c)
  case (Call now r1 r2 opn)
  with assms show ?thesis
    by (cases opn)
       (auto intro: within_limit_get within_limit_has within_limit_set within_limit_delete
          within_limit_clear within_limit_cleanup)
qed

lemma memory_limit_from_constructor:
  "within_limit (fold (perform ser) calls constructor)"
proof -
  have "within_limit s \<Longrightarrow> within_limit (fold (perform ser) calls s)" for s :: "'a CacheService"
    by (induction calls arbitrary: s) (auto intro: memory_limit_preserved)
  moreover have "within_limit (constructor :: 'a CacheService)"
    by (simp add: within_limit_def constructor_def calculateMemoryUsage_def)
  ultimately show ?thesis by blast
qed

end
